theory Spec2Isabelle
  imports Main
begin

section \<open>Strings\<close>

text \<open>
  A JavaScript string is a sequence of UTF-16 code units. The strings of this development
  are \<^typ>\<open>string\<close>, that is the code units below 256 (Latin-1); lengths, \<open>substring\<close>
  and \<open>includes\<close> count code units, as the source does.
\<close>

text \<open>\<open>String.prototype.trim\<close>: the white space and line terminators below 256.\<close>

definition isWhiteSpace :: "char \<Rightarrow> bool" where
  "isWhiteSpace c = ((of_char c :: nat) \<in> {9, 10, 11, 12, 13, 32, 160})"

definition trim :: "string \<Rightarrow> string" where
  "trim s = rev (dropWhile isWhiteSpace (rev (dropWhile isWhiteSpace s)))"

text \<open>\<open>String.prototype.toLowerCase\<close> on the code units below 256.\<close>

definition toLowerCase_char :: "char \<Rightarrow> char" where
  "toLowerCase_char c =
     (let n = (of_char c :: nat)
      in if (65 \<le> n \<and> n \<le> 90) \<or> (192 \<le> n \<and> n \<le> 222 \<and> n \<noteq> 215)
         then char_of (n + 32) else c)"

definition toLowerCase :: "string \<Rightarrow> string" where
  "toLowerCase s = map toLowerCase_char s"

fun startsWith :: "string \<Rightarrow> string \<Rightarrow> bool" where
  "startsWith s [] = True"
| "startsWith [] (p # ps) = False"
| "startsWith (c # cs) (p # ps) = (c = p \<and> startsWith cs ps)"

text \<open>\<open>s.includes(p)\<close>: \<open>p\<close> occurs in \<open>s\<close> as a contiguous run.\<close>

fun str_includes :: "string \<Rightarrow> string \<Rightarrow> bool" where
  "str_includes [] p = (p = [])"
| "str_includes (c # cs) p = (startsWith (c # cs) p \<or> str_includes cs p)"

text \<open>
  A number in a template literal: \<open>decimal\<close> prints a natural number in base 10,
  \<open>numberToString\<close> an integer.
\<close>

definition digitChar :: "nat \<Rightarrow> char" where
  "digitChar d = ''0123456789'' ! d"

fun decimal :: "nat \<Rightarrow> string" where
  "decimal n = (if n < 10 then [digitChar n] else decimal (n div 10) @ [digitChar (n mod 10)])"

declare decimal.simps [simp del]

definition numberToString :: "int \<Rightarrow> string" where
  "numberToString i = (if 0 \<le> i then decimal (nat i) else CHR ''-'' # decimal (nat (- i)))"

section \<open>Data model (\<open>types/ai-models\<close>)\<close>

datatype role = User | Assistant | System

record ChatMessage =
  role :: role
  content :: string
  timestamp :: int
  modelId :: "string option"

record Conversation =
  conv_id :: string
  title :: string
  createdAt :: int
  updatedAt :: int
  messages :: "ChatMessage list"
  modelIds :: "string list"

text \<open>
  \<open>PromptData\<close>. The attachments are carried along and never read by the dispatch code;
  each is represented by its id.
\<close>

record PromptData =
  prompt_text :: string
  attachments :: "string list"

text \<open>
  \<open>ModelConversation\<close>. The optional fields are options; \<open>mc_modelId\<close> is an option
  because \<open>clearConversation\<close> can build an entry without it. \<open>isLoading\<close> is only ever
  tested for truth, so a missing \<open>isLoading\<close> is \<open>False\<close>.
\<close>

record ModelConversation =
  mc_modelId :: "string option"
  mc_messages :: "ChatMessage list"
  isLoading :: bool
  mc_error :: "string option"
  retryCount :: "nat option"
  canRetry :: "bool option"
  lastFailedPrompt :: "PromptData option"

text \<open>
  \<open>AIModel\<close>. \<open>size\<close> and \<open>isOnline\<close> are not read by the modelled code and are left
  out; \<open>useHistory\<close> is only tested for truth, so a missing flag is \<open>False\<close>.
\<close>

record AIModel =
  model_id :: string
  model_name :: string
  isEnabled :: bool
  useHistory :: bool

datatype RetryStrategy = Immediate | Exponential | Fixed

text \<open>
  \<open>RetrySettings\<close>. The delays and the retry bound are JavaScript numbers holding
  integers (the settings dialog stores \<open>parseInt\<close> of a menu entry).
\<close>

record RetrySettings =
  enabled :: bool
  maxRetries :: int
  retryDelay :: int
  retryStrategy :: RetryStrategy
  retryOnlyModelErrors :: bool

text \<open>The settings \<open>sendPromptToModels\<close> falls back to when the configuration has none.\<close>

definition defaultRetrySettings :: RetrySettings where
  "defaultRetrySettings =
     \<lparr>enabled = True, maxRetries = 2, retryDelay = 2000, retryStrategy = Fixed,
      retryOnlyModelErrors = True\<rparr>"

section \<open>Retry delay (\<open>getRetryDelay\<close> in \<open>sendPromptToModels\<close>)\<close>

definition getRetryDelay :: "RetrySettings \<Rightarrow> nat \<Rightarrow> int" where
  "getRetryDelay retrySettings n =
     (case retryStrategy retrySettings of
        Exponential \<Rightarrow> retryDelay retrySettings * 2 ^ n
      | Immediate \<Rightarrow> 0
      | Fixed \<Rightarrow> retryDelay retrySettings)"

section \<open>Conversation titles (\<open>ConversationService.generateTitle\<close>)\<close>

definition generateTitle :: "string \<Rightarrow> string" where
  "generateTitle message =
     (let title = take 50 (trim message)
      in if length title = 50 then title @ ''...'' else title)"

section \<open>Durable storage (\<open>ConversationService\<close> over \<open>localStorage\<close>)\<close>

text \<open>
  The two \<open>localStorage\<close> items of the service: the item \<open>conversations\<close> holds the
  serialised conversation list (\<open>None\<close> when the key is absent), the item
  \<open>active_conversation_id\<close> the active id.
\<close>

record store =
  conversations_item :: "Conversation list option"
  active_item :: "string option"

text \<open>
  What the browser decides: whether \<open>localStorage\<close> exists (\<open>isAvailable\<close>), whether a
  \<open>setItem\<close> that would leave the storage in a given state is accepted (it throws
  otherwise, for instance on an exceeded quota), and the size \<open>estimateStorageSize\<close>
  computes from all the keys and values of the storage.
\<close>

record env =
  isAvailable :: bool
  setItem_ok :: "store \<Rightarrow> bool"
  storage_size :: "store \<Rightarrow> nat"

definition MAX_STORAGE_SIZE :: nat where
  "MAX_STORAGE_SIZE = 5 * 1024 * 1024"

definition MAX_CONVERSATIONS :: nat where
  "MAX_CONVERSATIONS = 50"

definition estimateStorageSize :: "env \<Rightarrow> store \<Rightarrow> nat" where
  "estimateStorageSize e s = (if \<not> isAvailable e then 0 else storage_size e s)"

definition getAllConversations :: "env \<Rightarrow> store \<Rightarrow> Conversation list" where
  "getAllConversations e s =
     (if \<not> isAvailable e then []
      else case conversations_item s of Some conversations \<Rightarrow> conversations | None \<Rightarrow> [])"

definition getConversation :: "env \<Rightarrow> store \<Rightarrow> string \<Rightarrow> Conversation option" where
  "getConversation e s i = find (\<lambda>conv. conv_id conv = i) (getAllConversations e s)"

text \<open>\<open>localStorage.setItem\<close> on either key: \<open>None\<close> when it throws.\<close>

definition setItem_conversations :: "env \<Rightarrow> Conversation list \<Rightarrow> store \<Rightarrow> store option" where
  "setItem_conversations e cs s =
     (let s' = s\<lparr>conversations_item := Some cs\<rparr> in if setItem_ok e s' then Some s' else None)"

definition setItem_active :: "env \<Rightarrow> string \<Rightarrow> store \<Rightarrow> store option" where
  "setItem_active e i s =
     (let s' = s\<lparr>active_item := Some i\<rparr> in if setItem_ok e s' then Some s' else None)"

definition getActiveConversationId :: "env \<Rightarrow> store \<Rightarrow> string option" where
  "getActiveConversationId e s = (if \<not> isAvailable e then None else active_item s)"

definition setActiveConversation :: "env \<Rightarrow> string \<Rightarrow> store \<Rightarrow> store" where
  "setActiveConversation e i s =
     (if \<not> isAvailable e then s
      else case setItem_active e i s of Some s' \<Rightarrow> s' | None \<Rightarrow> s)"

definition clearActiveConversation :: "env \<Rightarrow> store \<Rightarrow> store" where
  "clearActiveConversation e s = (if \<not> isAvailable e then s else s\<lparr>active_item := None\<rparr>)"

text \<open>
  \<open>ConversationService.deleteConversation\<close>. A failed write is caught and leaves the
  storage as it was.
\<close>

definition svc_deleteConversation :: "env \<Rightarrow> string \<Rightarrow> store \<Rightarrow> store" where
  "svc_deleteConversation e i s =
     (if \<not> isAvailable e then s
      else case setItem_conversations e
                  (filter (\<lambda>conv. conv_id conv \<noteq> i) (getAllConversations e s)) s of
             None \<Rightarrow> s
           | Some s1 \<Rightarrow>
               if getActiveConversationId e s1 = Some i
               then (case getAllConversations e s1 of
                       [] \<Rightarrow> clearActiveConversation e s1
                     | first # _ \<Rightarrow> setActiveConversation e (conv_id first) s1)
               else s1)"

text \<open>
  \<open>cleanupOldConversations\<close>: the two \<open>while\<close> loops shift the oldest conversation off
  the sorted copy and delete it from the storage.
\<close>

fun evictOverCount :: "env \<Rightarrow> Conversation list \<Rightarrow> store \<Rightarrow> Conversation list \<times> store" where
  "evictOverCount e [] s = ([], s)"
| "evictOverCount e (oldest # rest) s =
     (if length (oldest # rest) > MAX_CONVERSATIONS
      then evictOverCount e rest (svc_deleteConversation e (conv_id oldest) s)
      else (oldest # rest, s))"

fun evictOverSize :: "env \<Rightarrow> Conversation list \<Rightarrow> store \<Rightarrow> store" where
  "evictOverSize e [] s = s"
| "evictOverSize e (oldest # rest) s =
     (if estimateStorageSize e s > MAX_STORAGE_SIZE \<and> length (oldest # rest) > 1
      then evictOverSize e rest (svc_deleteConversation e (conv_id oldest) s)
      else s)"

definition cleanupOldConversations :: "env \<Rightarrow> store \<Rightarrow> store" where
  "cleanupOldConversations e s =
     (let sortedConversations = sort_key updatedAt (getAllConversations e s);
          (remaining, s1) = evictOverCount e sortedConversations s
      in evictOverSize e remaining s1)"

fun findIndex :: "('a \<Rightarrow> bool) \<Rightarrow> 'a list \<Rightarrow> nat option" where
  "findIndex P [] = None"
| "findIndex P (x # xs) =
     (if P x then Some 0 else map_option Suc (findIndex P xs))"

text \<open>The replace-or-push of \<open>saveConversation\<close>.\<close>

definition putConversation :: "Conversation \<Rightarrow> Conversation list \<Rightarrow> Conversation list" where
  "putConversation conversation conversations =
     (case findIndex (\<lambda>conv. conv_id conv = conv_id conversation) conversations of
        Some existingIndex \<Rightarrow> conversations[existingIndex := conversation]
      | None \<Rightarrow> conversations @ [conversation])"

definition saveConversation :: "env \<Rightarrow> Conversation \<Rightarrow> store \<Rightarrow> store" where
  "saveConversation e conversation s =
     (if \<not> isAvailable e then s
      else case setItem_conversations e
                  (putConversation conversation (getAllConversations e s)) s of
             Some s1 \<Rightarrow> cleanupOldConversations e s1
           | None \<Rightarrow>
               (let s2 = cleanupOldConversations e s
                in case setItem_conversations e
                          (putConversation conversation (getAllConversations e s2)) s2 of
                     Some s3 \<Rightarrow> s3
                   | None \<Rightarrow> s2))"

text \<open>
  \<open>createConversation\<close>. The id (built from the clock and \<open>Math.random\<close>) and the
  reading of \<open>Date.now()\<close> are arguments; an absent or empty initial message gives the
  default title.
\<close>

definition initialConversation :: "int \<Rightarrow> string \<Rightarrow> string option \<Rightarrow> Conversation" where
  "initialConversation now new_id initialMessage =
     \<lparr>conv_id = new_id,
      title = (case initialMessage of
                 None \<Rightarrow> ''New Conversation''
               | Some m \<Rightarrow> if m = [] then ''New Conversation'' else generateTitle m),
      createdAt = now, updatedAt = now, messages = [], modelIds = []\<rparr>"

definition createConversation ::
  "env \<Rightarrow> int \<Rightarrow> string \<Rightarrow> string option \<Rightarrow> store \<Rightarrow> Conversation \<times> store" where
  "createConversation e now new_id initialMessage s =
     (let conversation = initialConversation now new_id initialMessage
      in (conversation,
          setActiveConversation e (conv_id conversation) (saveConversation e conversation s)))"

definition addMessageToConversation ::
  "env \<Rightarrow> int \<Rightarrow> string \<Rightarrow> ChatMessage \<Rightarrow> store \<Rightarrow> store" where
  "addMessageToConversation e now conversationId message s =
     (case getConversation e s conversationId of
        None \<Rightarrow> s
      | Some conversation \<Rightarrow>
          (let c1 = conversation\<lparr>messages := messages conversation @ [message],
                                 updatedAt := now\<rparr>;
               c2 = (if role message = User
                        \<and> length (filter (\<lambda>m. role m = User) (messages c1)) = 1
                     then c1\<lparr>title := generateTitle (content message)\<rparr> else c1);
               c3 = (case modelId message of
                       None \<Rightarrow> c2
                     | Some m \<Rightarrow>
                         if m \<noteq> [] \<and> m \<notin> set (modelIds c2)
                         then c2\<lparr>modelIds := modelIds c2 @ [m]\<rparr> else c2)
           in saveConversation e c3 s))"

text \<open>\<open>getConversationHistory\<close> ignores its model id: every message is returned.\<close>

definition getConversationHistory :: "env \<Rightarrow> store \<Rightarrow> string \<Rightarrow> string \<Rightarrow> ChatMessage list" where
  "getConversationHistory e s conversationId mid =
     (case getConversation e s conversationId of
        None \<Rightarrow> []
      | Some conversation \<Rightarrow> messages conversation)"

definition svc_clearAllConversations :: "env \<Rightarrow> store \<Rightarrow> store" where
  "svc_clearAllConversations e s =
     (if \<not> isAvailable e then s
      else s\<lparr>conversations_item := None, active_item := None\<rparr>)"

text \<open>
  The storage works: \<open>localStorage\<close> exists and accepts every write. The properties of
  the service below are stated for such a browser.
\<close>

definition storageWorks :: "env \<Rightarrow> bool" where
  "storageWorks e = (isAvailable e \<and> (\<forall>s. setItem_ok e s))"

section \<open>Transport (\<open>LMStudioRepository\<close>)\<close>

text \<open>
  The error classes of \<open>types/ai-models\<close>, any other \<open>Error\<close> (a \<open>TypeError\<close> of the
  runtime, say) with its message, and a thrown value that is no \<open>Error\<close>.
\<close>

datatype js_error =
    ConfigurationError string
  | NetworkError string "nat option"
  | ValidationError string
  | OtherError string
  | NonError

fun error_message :: "js_error \<Rightarrow> string option" where
  "error_message (ConfigurationError m) = Some m"
| "error_message (NetworkError m st) = Some m"
| "error_message (ValidationError m) = Some m"
| "error_message (OtherError m) = Some m"
| "error_message NonError = None"

text \<open>
  The body of a response that is not \<open>ok\<close>, as \<open>sendMessage\<close> reads it: text that
  \<open>JSON.parse\<close> rejects (or whose \<open>error.message\<close> is no string), an object without
  \<open>error.message\<close>, or the string \<open>errorData.error.message\<close>.
\<close>

datatype error_body = Unparsable | NoMessage | Message string

text \<open>
  One \<open>data:\<close> line of the event stream, as \<open>parseStreamingResponse\<close> reads it: the
  \<open>[DONE]\<close> sentinel; an object with a truthy \<open>error\<close> whose \<open>errorMsg\<close> is a string, or
  is another value (given as the template literal prints it); an object without \<open>error\<close>
  and its \<open>choices[0].delta.content\<close>; text that \<open>JSON.parse\<close> rejects.
\<close>

datatype sse_data =
    DoneSentinel
  | ErrorText string
  | ErrorValue string
  | Delta "string option"
  | InvalidJSON

text \<open>
  The body stream: absent, or the \<open>data:\<close> lines it carries and how reading ends
  (\<open>None\<close>: the reader reports \<open>done\<close>; \<open>Some m\<close>: \<open>reader.read()\<close> rejects with an
  \<open>Error\<close> of message \<open>m\<close> after these lines).
\<close>

datatype response_body = NoBody | Body "sse_data list" "string option"

record Response =
  ok :: bool
  status :: nat
  errorBody :: error_body
  body :: response_body

text \<open>What \<open>fetch\<close> does: it is aborted, it rejects (with the message of the \<open>Error\<close>,
  if it is one), or it resolves to a response.\<close>

datatype fetch_outcome = FetchAborted | FetchRejected "string option" | FetchResponse Response

text \<open>
  \<open>sendMessage\<close>. An exception is \<open>Inl\<close>. The inner \<open>try\<close> computes the new
  \<open>errorMessage\<close> or throws; its \<open>catch (parseError)\<close> has an empty body, so whatever
  the inner block throws is dropped and \<open>errorMessage\<close> keeps the status-based text.
\<close>

definition sendMessage :: "string \<Rightarrow> fetch_outcome \<Rightarrow> js_error + Response" where
  "sendMessage mid outcome =
     (case outcome of
        FetchAborted \<Rightarrow> Inl (NetworkError ''Request was cancelled'' None)
      | FetchRejected m \<Rightarrow>
          Inl (NetworkError (''Failed to send message: ''
                 @ (case m of Some t \<Rightarrow> t | None \<Rightarrow> ''Unknown error'')) None)
      | FetchResponse response \<Rightarrow>
          if \<not> ok response then
            (let statusMessage = ''Failed to send message: HTTP '' @ decimal (status response);
                 inner = (case errorBody response of
                            Unparsable \<Rightarrow> Inl (OtherError ''SyntaxError'')
                          | NoMessage \<Rightarrow> Inr statusMessage
                          | Message m \<Rightarrow>
                              if str_includes (toLowerCase m) ''model''
                                 \<and> (str_includes (toLowerCase m) ''unloaded''
                                    \<or> str_includes (toLowerCase m) ''not loaded''
                                    \<or> str_includes (toLowerCase m) ''not found'')
                              then Inl (ConfigurationError
                                     (''Model '' @ [CHR 0x22] @ mid @ [CHR 0x22]
                                      @ '' is not loaded. Please load the model in LM Studio first.''))
                              else Inr (if m = [] then statusMessage else m));
                 errorMessage = (case inner of Inl parseError \<Rightarrow> statusMessage | Inr t \<Rightarrow> t)
             in Inl (NetworkError errorMessage (Some (status response))))
          else Inr response)"

text \<open>
  \<open>parseStreamingResponse\<close>: the fragments the generator yields, and the error it throws
  after them, if any.
\<close>

fun parseLines :: "sse_data list \<Rightarrow> string option \<Rightarrow> string list \<times> js_error option" where
  "parseLines [] ending = ([], map_option OtherError ending)"
| "parseLines (DoneSentinel # rest) ending = ([], None)"
| "parseLines (ErrorText errorMsg # rest) ending =
     ([], Some (if str_includes (toLowerCase errorMsg) ''unloaded''
                   \<or> str_includes (toLowerCase errorMsg) ''not loaded''
                   \<or> str_includes (toLowerCase errorMsg) ''model not found''
                then ConfigurationError
                       ''Model unloaded during response. Please reload the model in LM Studio.''
                else NetworkError (''Streaming error: '' @ errorMsg) None))"
| "parseLines (ErrorValue printed # rest) ending =
     ([], Some (NetworkError (''Streaming error: '' @ printed) None))"
| "parseLines (Delta c # rest) ending =
     (case c of
        None \<Rightarrow> parseLines rest ending
      | Some chunk \<Rightarrow>
          if chunk = [] then parseLines rest ending
          else (case parseLines rest ending of (chunks, failure) \<Rightarrow> (chunk # chunks, failure)))"
| "parseLines (InvalidJSON # rest) ending = parseLines rest ending"

definition parseStreamingResponse :: "Response \<Rightarrow> string list \<times> js_error option" where
  "parseStreamingResponse response =
     (case body response of
        NoBody \<Rightarrow> ([], Some (NetworkError ''No response body available'' None))
      | Body lines ending \<Rightarrow> parseLines lines ending)"

section \<open>Dispatch engine (the hook \<open>useAIModels\<close>)\<close>

text \<open>
  The state of the hook (the \<open>useState\<close> cells the modelled callbacks touch, with
  \<open>config.retrySettings\<close>) together with the storage of the service. An operation that
  calls \<open>Date.now()\<close> takes the reading as its argument \<open>now\<close>: the calls made within one
  synchronous operation are taken to return the same value.
\<close>

record app =
  models :: "AIModel list"
  conversations :: "string \<rightharpoonup> ModelConversation"
  allConversations :: "Conversation list"
  activeConversationId :: "string option"
  app_error :: "string option"
  retrySettings :: "RetrySettings option"
  storage :: store

text \<open>
  What a task did to the outside: a call of \<open>lmStudioRepo.sendMessage\<close> for a model with
  its message list, a timed wait.
\<close>

datatype event = Sent string "(role \<times> string) list" | Waited int

text \<open>The number of requests in a log.\<close>

fun isSent :: "event \<Rightarrow> bool" where
  "isSent (Sent mid msgs) = True"
| "isSent (Waited d) = False"

definition sends :: "event list \<Rightarrow> nat" where
  "sends log = length (filter isSent log)"

definition shouldRetryError :: "RetrySettings \<Rightarrow> js_error \<Rightarrow> bool" where
  "shouldRetryError rs err =
     (if \<not> enabled rs then False
      else if retryOnlyModelErrors rs
      then (case err of
              ConfigurationError m \<Rightarrow> str_includes (toLowerCase m) ''not loaded''
            | _ \<Rightarrow> False)
      else True)"

text \<open>The outbound message list of one attempt.\<close>

definition apiMessages :: "env \<Rightarrow> store \<Rightarrow> string \<Rightarrow> AIModel \<Rightarrow> PromptData \<Rightarrow> (role \<times> string) list" where
  "apiMessages e s currentActiveId model prompt =
     (if useHistory model \<and> currentActiveId \<noteq> []
      then map (\<lambda>msg. (role msg, content msg))
             (getConversationHistory e s currentActiveId (model_id model))
      else [(User, prompt_text prompt)])"

text \<open>The test on \<open>lastMessage\<close>: the window ends in an assistant message of this model.\<close>

definition ownsTrailing :: "string \<Rightarrow> ChatMessage list \<Rightarrow> bool" where
  "ownsTrailing mid msgs =
     (msgs \<noteq> [] \<and> role (last msgs) = Assistant \<and> modelId (last msgs) = Some mid)"

text \<open>
  The state update after one fragment: \<open>assistantMessage\<close> is the text accumulated so
  far.
\<close>

definition applyChunk ::
  "int \<Rightarrow> string \<Rightarrow> string \<Rightarrow> (string \<rightharpoonup> ModelConversation) \<Rightarrow> (string \<rightharpoonup> ModelConversation)" where
  "applyChunk now mid assistantMessage prev =
     (case prev mid of
        None \<Rightarrow> prev
      | Some mc \<Rightarrow>
          (let msgs = mc_messages mc;
               msgs' =
                 (if ownsTrailing mid msgs
                  then msgs[length msgs - 1 := (last msgs)\<lparr>content := assistantMessage\<rparr>]
                  else msgs @ [\<lparr>role = Assistant, content = assistantMessage, timestamp = now,
                                modelId = Some mid\<rparr>])
           in prev(mid \<mapsto> mc\<lparr>mc_messages := msgs', isLoading := False, mc_error := None,
                                canRetry := Some False, retryCount := Some 0\<rparr>)))"

text \<open>The \<open>for await\<close> loop over the fragments.\<close>

fun consumeChunks ::
  "int \<Rightarrow> string \<Rightarrow> string list \<Rightarrow> string \<Rightarrow> (string \<rightharpoonup> ModelConversation)
   \<Rightarrow> string \<times> (string \<rightharpoonup> ModelConversation)" where
  "consumeChunks now mid [] assistantMessage convs = (assistantMessage, convs)"
| "consumeChunks now mid (chunk # rest) assistantMessage convs =
     consumeChunks now mid rest (assistantMessage @ chunk)
       (applyChunk now mid (assistantMessage @ chunk) convs)"

datatype control = Break | Continue

text \<open>The \<open>catch\<close> block of the retry loop.\<close>

definition onError ::
  "RetrySettings \<Rightarrow> AIModel \<Rightarrow> PromptData \<Rightarrow> nat \<Rightarrow> js_error \<Rightarrow> app \<Rightarrow> control \<times> app \<times> event list" where
  "onError rs model prompt n err st =
     (let errorMessage = (case error_message err of Some m \<Rightarrow> m | None \<Rightarrow> ''Failed to get response'');
          shouldRetry = shouldRetryError rs err;
          mid = model_id model
      in if shouldRetry \<and> int n < maxRetries rs
         then
           (let n' = n + 1;
                st' = st\<lparr>conversations :=
                  (case conversations st mid of
                     None \<Rightarrow> conversations st
                   | Some mc \<Rightarrow> (conversations st)(mid \<mapsto>
                       mc\<lparr>isLoading := True,
                          mc_error := Some (''Retrying... ('' @ decimal n' @ ''/''
                                            @ numberToString (maxRetries rs) @ '')''),
                          retryCount := Some n', canRetry := Some False\<rparr>))\<rparr>;
                delay = getRetryDelay rs (n' - 1)
            in (Continue, st', if delay > 0 then [Waited delay] else []))
         else
           (Break,
            st\<lparr>conversations :=
              (case conversations st mid of
                 None \<Rightarrow> conversations st
               | Some mc \<Rightarrow> (conversations st)(mid \<mapsto>
                   mc\<lparr>isLoading := False, mc_error := Some errorMessage, retryCount := Some n,
                      canRetry := Some True, lastFailedPrompt := Some prompt\<rparr>))\<rparr>,
            []))"

text \<open>
  One iteration of the \<open>while\<close> loop that nothing interrupts: the \<open>try\<close> block and,
  when it throws, the \<open>catch\<close> block, with no other callback running between its
  \<open>await\<close>s. \<open>now\<close> is the reading of \<open>Date.now()\<close> during this attempt, \<open>outcome\<close> what
  \<open>fetch\<close> does for it.
\<close>

definition attempt ::
  "env \<Rightarrow> int \<Rightarrow> fetch_outcome \<Rightarrow> RetrySettings \<Rightarrow> string \<Rightarrow> AIModel \<Rightarrow> PromptData \<Rightarrow> nat \<Rightarrow> app
   \<Rightarrow> control \<times> app \<times> event list" where
  "attempt e now outcome rs currentActiveId model prompt n st =
     (let mid = model_id model;
          sent = Sent mid (apiMessages e (storage st) currentActiveId model prompt)
      in case sendMessage mid outcome of
           Inl err \<Rightarrow>
             (case onError rs model prompt n err st of (c, st', evs) \<Rightarrow> (c, st', sent # evs))
         | Inr response \<Rightarrow>
             (case parseStreamingResponse response of
                (chunks, failure) \<Rightarrow>
                  (case consumeChunks now mid chunks [] (conversations st) of
                     (assistantMessage, convs') \<Rightarrow>
                       (let st1 = st\<lparr>conversations := convs'\<rparr>
                        in case failure of
                             Some err \<Rightarrow>
                               (case onError rs model prompt n err st1 of
                                  (c, st', evs) \<Rightarrow> (c, st', sent # evs))
                           | None \<Rightarrow>
                               (Break,
                                (if assistantMessage \<noteq> [] \<and> currentActiveId \<noteq> []
                                 then st1\<lparr>storage :=
                                   addMessageToConversation e now currentActiveId
                                     \<lparr>role = Assistant, content = assistantMessage,
                                      timestamp = now, modelId = Some mid\<rparr> (storage st1)\<rparr>
                                 else st1),
                                [sent])))))"

text \<open>
  The retry loop of one model's task that runs alone, from \<open>retryCount = n\<close> to its end.
  Attempt \<open>k\<close> (counted from 0) reads the clock \<open>clock k\<close> and meets the outcome
  \<open>server k\<close>; the attempt number and \<open>retryCount\<close> agree, since every pass of the loop
  that continues increments \<open>retryCount\<close>.
\<close>

function modelTask ::
  "env \<Rightarrow> (nat \<Rightarrow> int) \<Rightarrow> (nat \<Rightarrow> fetch_outcome) \<Rightarrow> RetrySettings \<Rightarrow> string \<Rightarrow> AIModel
   \<Rightarrow> PromptData \<Rightarrow> nat \<Rightarrow> app \<times> event list \<Rightarrow> app \<times> event list" where
  "modelTask e clock server rs currentActiveId model prompt n (st, log) =
     (if int n \<le> maxRetries rs
      then (case attempt e (clock n) (server n) rs currentActiveId model prompt n st of
              (Break, st', evs) \<Rightarrow> (st', log @ evs)
            | (Continue, st', evs) \<Rightarrow>
                modelTask e clock server rs currentActiveId model prompt (n + 1) (st', log @ evs))
      else (st, log))"
  by pat_completeness auto
termination
  by (relation "measure (\<lambda>(e, clock, server, rs, a, model, prompt, n, x). nat (maxRetries rs + 1 - int n))")
     auto

declare modelTask.simps [simp del]

text \<open>
  What a callback closed over when it was created: \<open>sendPromptToModels\<close> reads
  \<open>activeConversationId\<close> and \<open>config.retrySettings\<close> from its closure, not from the
  current state.
\<close>

record closure =
  cl_activeConversationId :: "string option"
  cl_retrySettings :: "RetrySettings option"

definition closure_of :: "app \<Rightarrow> closure" where
  "closure_of st =
     \<lparr>cl_activeConversationId = activeConversationId st, cl_retrySettings = retrySettings st\<rparr>"

text \<open>
  The tasks of \<open>sendPromptToModels\<close> run concurrently: \<open>targetModels.map\<close> starts them one
  after the other, each runs until its first \<open>await\<close>, and from then on a task resumes
  whenever what it waits for arrives. A task is suspended at one of three places: at
  \<open>await lmStudioRepo.sendMessage(...)\<close>, the request of the attempt with
  \<open>retryCount = n\<close> being under way; inside \<open>for await\<close>, with the text accumulated so
  far, the fragments the stream will still yield and the error it throws after them, if
  any; at the \<open>await\<close> of the timer, before the attempt with \<open>retryCount = n\<close>.
\<close>

datatype task =
    Requesting nat
  | Streaming nat string "string list" "js_error option"
  | Waiting nat
  | Finished

fun isFinished :: "task \<Rightarrow> bool" where
  "isFinished Finished = True"
| "isFinished (Requesting n) = False"
| "isFinished (Streaming n assistantMessage chunks failure) = False"
| "isFinished (Waiting n) = False"

text \<open>
  The head of the \<open>while\<close> loop and the \<open>try\<close> block up to its first \<open>await\<close>: the test
  \<open>retryCount <= maxRetries\<close>, the outbound list, built from the store as it is now, and
  the call of \<open>sendMessage\<close>, which issues the request.
\<close>

definition beginAttempt ::
  "env \<Rightarrow> RetrySettings \<Rightarrow> string \<Rightarrow> AIModel \<Rightarrow> PromptData \<Rightarrow> nat \<Rightarrow> app \<Rightarrow> task \<times> event list" where
  "beginAttempt e rs currentActiveId model prompt n st =
     (if int n \<le> maxRetries rs
      then (Requesting n,
            [Sent (model_id model) (apiMessages e (storage st) currentActiveId model prompt)])
      else (Finished, []))"

text \<open>
  The \<open>catch\<close> block and what follows it without an \<open>await\<close>: after \<open>break\<close> the task is
  finished; after \<open>continue\<close> it waits for the timer when the delay is positive, and
  otherwise begins the next attempt at once.
\<close>

definition afterError ::
  "env \<Rightarrow> RetrySettings \<Rightarrow> string \<Rightarrow> AIModel \<Rightarrow> PromptData \<Rightarrow> nat \<Rightarrow> js_error \<Rightarrow> app
   \<Rightarrow> task \<times> app \<times> event list" where
  "afterError e rs currentActiveId model prompt n err st =
     (case onError rs model prompt n err st of
        (Break, st', evs) \<Rightarrow> (Finished, st', evs)
      | (Continue, st', evs) \<Rightarrow>
          if 0 < getRetryDelay rs n then (Waiting (n + 1), st', evs)
          else (case beginAttempt e rs currentActiveId model prompt (n + 1) st' of
                  (t, sent) \<Rightarrow> (t, st', evs @ sent)))"

text \<open>
  One resumption of a suspended task, up to its next \<open>await\<close> or its end; \<open>now\<close> is the
  reading of \<open>Date.now()\<close>, \<open>server n\<close> what \<open>fetch\<close> does for the request of attempt \<open>n\<close>.
  The response arrives: \<open>sendMessage\<close> throws or returns it, and the generator is
  created. A fragment arrives: it is appended to \<open>assistantMessage\<close> and shown. The stream
  ends: with the error it throws, or else the reply is stored and the loop left. The
  timer fires: the next attempt begins.
\<close>

definition taskStep ::
  "env \<Rightarrow> (nat \<Rightarrow> fetch_outcome) \<Rightarrow> RetrySettings \<Rightarrow> string \<Rightarrow> AIModel \<Rightarrow> PromptData \<Rightarrow> int
   \<Rightarrow> task \<Rightarrow> app \<Rightarrow> task \<times> app \<times> event list" where
  "taskStep e server rs currentActiveId model prompt now t st =
     (case t of
        Requesting n \<Rightarrow>
          (case sendMessage (model_id model) (server n) of
             Inl err \<Rightarrow> afterError e rs currentActiveId model prompt n err st
           | Inr response \<Rightarrow>
               (case parseStreamingResponse response of
                  (chunks, failure) \<Rightarrow> (Streaming n [] chunks failure, st, [])))
      | Streaming n assistantMessage chunks failure \<Rightarrow>
          (case chunks of
             chunk # rest \<Rightarrow>
               (Streaming n (assistantMessage @ chunk) rest failure,
                st\<lparr>conversations :=
                     applyChunk now (model_id model) (assistantMessage @ chunk) (conversations st)\<rparr>,
                [])
           | [] \<Rightarrow>
               (case failure of
                  Some err \<Rightarrow> afterError e rs currentActiveId model prompt n err st
                | None \<Rightarrow>
                    (Finished,
                     (if assistantMessage \<noteq> [] \<and> currentActiveId \<noteq> []
                      then st\<lparr>storage :=
                        addMessageToConversation e now currentActiveId
                          \<lparr>role = Assistant, content = assistantMessage,
                           timestamp = now, modelId = Some (model_id model)\<rparr> (storage st)\<rparr>
                      else st),
                     [])))
      | Waiting n \<Rightarrow>
          (case beginAttempt e rs currentActiveId model prompt n st of (t', sent) \<Rightarrow> (t', st, sent))
      | Finished \<Rightarrow> (Finished, st, []))"

text \<open>
  The tasks of the target models, by position in \<open>targetModels\<close>, with the state and the
  log. An entry \<open>(i, now)\<close> of a schedule resumes the task of the \<open>i\<close>-th target model at
  the time \<open>now\<close>; it does nothing if there is no such task or the task is finished.
\<close>

definition stepAt ::
  "env \<Rightarrow> (string \<Rightarrow> nat \<Rightarrow> fetch_outcome) \<Rightarrow> RetrySettings \<Rightarrow> string \<Rightarrow> AIModel list \<Rightarrow> PromptData
   \<Rightarrow> app \<times> task list \<times> event list \<Rightarrow> nat \<times> int \<Rightarrow> app \<times> task list \<times> event list" where
  "stepAt e server rs currentActiveId targetModels prompt x entry =
     (case x of (st, tasks, log) \<Rightarrow>
        (case entry of (i, now) \<Rightarrow>
           if i < length tasks \<and> i < length targetModels
           then (case taskStep e (server (model_id (targetModels ! i))) rs currentActiveId
                        (targetModels ! i) prompt now (tasks ! i) st of
                   (t', st', evs) \<Rightarrow> (st', tasks[i := t'], log @ evs))
           else (st, tasks, log)))"

text \<open>
  \<open>sendPromptToModels\<close>, as far as the schedule goes. Every task is started, in the
  order of the list, before any of them resumes: the first request of each is built
  from the store as the call finds it. Then the tasks resume as the schedule says. Once
  all of them are finished, \<open>Promise.allSettled\<close> resolves and the list of conversations
  is refreshed. The task of model \<open>m\<close> meets the outcomes \<open>server m\<close>.
\<close>

definition sendPromptToModels ::
  "env \<Rightarrow> (string \<Rightarrow> nat \<Rightarrow> fetch_outcome) \<Rightarrow> closure \<Rightarrow> AIModel list \<Rightarrow> PromptData
   \<Rightarrow> (nat \<times> int) list \<Rightarrow> app \<Rightarrow> app \<times> event list" where
  "sendPromptToModels e server cl targetModels prompt schedule st =
     (case cl_activeConversationId cl of
        None \<Rightarrow> (st\<lparr>app_error := Some ''No active conversation''\<rparr>, [])
      | Some currentActiveId \<Rightarrow>
          if currentActiveId = [] then (st\<lparr>app_error := Some ''No active conversation''\<rparr>, [])
          else
            (let rs = (case cl_retrySettings cl of Some r \<Rightarrow> r | None \<Rightarrow> defaultRetrySettings);
                 started = map (\<lambda>model. beginAttempt e rs currentActiveId model prompt 0 st)
                             targetModels
             in case foldl (stepAt e server rs currentActiveId targetModels prompt)
                       (st, map fst started, concat (map snd started)) schedule of
                  (st', tasks, log) \<Rightarrow>
                    (if list_all isFinished tasks
                     then st'\<lparr>allConversations := getAllConversations e (storage st')\<rparr>
                     else st',
                     log)))"

text \<open>
  \<open>retryFailedModel\<close>; \<open>cl\<close> is the closure of the \<open>sendPromptToModels\<close> it calls.
\<close>

definition retryFailedModel ::
  "env \<Rightarrow> (string \<Rightarrow> nat \<Rightarrow> fetch_outcome) \<Rightarrow> closure \<Rightarrow> string \<Rightarrow> (nat \<times> int) list \<Rightarrow> app
   \<Rightarrow> app \<times> event list" where
  "retryFailedModel e server cl mid schedule st =
     (case conversations st mid of
        None \<Rightarrow> (st, [])
      | Some conversation \<Rightarrow>
          (case lastFailedPrompt conversation of
             None \<Rightarrow> (st, [])
           | Some failedPrompt \<Rightarrow>
               (case find (\<lambda>m. model_id m = mid) (models st) of
                  None \<Rightarrow> (st, [])
                | Some model \<Rightarrow>
                    if \<not> isEnabled model then (st, [])
                    else sendPromptToModels e server cl [model] failedPrompt schedule
                           (st\<lparr>conversations := (conversations st)(mid \<mapsto>
                                 conversation\<lparr>isLoading := True, mc_error := None,
                                              canRetry := Some False,
                                              retryCount := Some 0\<rparr>)\<rparr>))))"

text \<open>
  \<open>sendPromptToEnabledModels\<close> up to its last statement: the conversation is created if
  there is none, the user message is stored and shown in every enabled model's window.
\<close>

text \<open>The message object \<open>userMessage\<close> of a submission.\<close>

definition userMessage :: "int \<Rightarrow> PromptData \<Rightarrow> ChatMessage" where
  "userMessage now prompt =
     \<lparr>role = User, content = prompt_text prompt, timestamp = now, modelId = None\<rparr>"

definition showUserMessage ::
  "ChatMessage \<Rightarrow> AIModel list \<Rightarrow> (string \<rightharpoonup> ModelConversation) \<Rightarrow> (string \<rightharpoonup> ModelConversation)" where
  "showUserMessage message activeModels prev =
     foldl (\<lambda>updated model.
              case updated (model_id model) of
                None \<Rightarrow> updated
              | Some mc \<Rightarrow> updated(model_id model \<mapsto>
                  mc\<lparr>mc_messages := mc_messages mc @ [message], isLoading := True,
                     mc_error := None, canRetry := Some False, retryCount := Some 0\<rparr>))
       prev activeModels"

definition submitUserMessage :: "env \<Rightarrow> int \<Rightarrow> string \<Rightarrow> PromptData \<Rightarrow> app \<Rightarrow> string \<times> app" where
  "submitUserMessage e now new_id prompt st =
     (let activeModels = filter isEnabled (models st);
          (currentActiveId, st1) =
            (case activeConversationId st of
               Some i \<Rightarrow>
                 if i \<noteq> [] then (i, st)
                 else (case createConversation e now new_id (Some (prompt_text prompt)) (storage st) of
                         (newConversation, s') \<Rightarrow>
                           (conv_id newConversation,
                            st\<lparr>storage := s', activeConversationId := Some (conv_id newConversation),
                               allConversations := getAllConversations e s'\<rparr>))
             | None \<Rightarrow>
                 (case createConversation e now new_id (Some (prompt_text prompt)) (storage st) of
                    (newConversation, s') \<Rightarrow>
                      (conv_id newConversation,
                       st\<lparr>storage := s', activeConversationId := Some (conv_id newConversation),
                          allConversations := getAllConversations e s'\<rparr>)));
          st2 = st1\<lparr>storage := addMessageToConversation e now currentActiveId
                                (userMessage now prompt) (storage st1)\<rparr>
      in (currentActiveId,
          st2\<lparr>conversations :=
                showUserMessage (userMessage now prompt) activeModels (conversations st2)\<rparr>))"

text \<open>
  \<open>sendPromptToEnabledModels\<close>. The \<open>sendPromptToModels\<close> it calls was created in the
  same render, so its closure holds the state the submission started from.
\<close>

definition sendPromptToEnabledModels ::
  "env \<Rightarrow> int \<Rightarrow> string \<Rightarrow> (string \<Rightarrow> nat \<Rightarrow> fetch_outcome) \<Rightarrow> PromptData \<Rightarrow> (nat \<times> int) list
   \<Rightarrow> app \<Rightarrow> app \<times> event list" where
  "sendPromptToEnabledModels e now new_id server prompt schedule st =
     (let activeModels = filter isEnabled (models st)
      in if activeModels = [] then (st\<lparr>app_error := Some ''No models are enabled''\<rparr>, [])
         else sendPromptToModels e server (closure_of st) activeModels prompt schedule
                (snd (submitUserMessage e now new_id prompt st)))"

definition clearConversation :: "string \<Rightarrow> app \<Rightarrow> app" where
  "clearConversation mid st =
     st\<lparr>conversations := (conversations st)(mid \<mapsto>
          (case conversations st mid of
             None \<Rightarrow> \<lparr>mc_modelId = None, mc_messages = [], isLoading = False, mc_error = None,
                      retryCount = None, canRetry = None, lastFailedPrompt = None\<rparr>
           | Some mc \<Rightarrow> mc\<lparr>mc_messages := [], mc_error := None\<rparr>))\<rparr>"

text \<open>The reset of every window that \<open>createNewConversation\<close> and \<open>clearAllConversations\<close> do.\<close>

definition emptied :: "(string \<rightharpoonup> ModelConversation) \<Rightarrow> (string \<rightharpoonup> ModelConversation)" where
  "emptied prev =
     (\<lambda>k. map_option (\<lambda>mc. mc\<lparr>mc_messages := [], mc_error := None, isLoading := False\<rparr>) (prev k))"

definition createNewConversation :: "env \<Rightarrow> int \<Rightarrow> string \<Rightarrow> app \<Rightarrow> app" where
  "createNewConversation e now new_id st =
     (case createConversation e now new_id None (storage st) of
        (newConversation, s') \<Rightarrow>
          st\<lparr>storage := s', activeConversationId := Some (conv_id newConversation),
             allConversations := getAllConversations e s',
             conversations := emptied (conversations st)\<rparr>)"

definition clearAllConversations :: "env \<Rightarrow> int \<Rightarrow> string \<Rightarrow> app \<Rightarrow> app" where
  "clearAllConversations e now new_id st =
     (case createConversation e now new_id None (svc_clearAllConversations e (storage st)) of
        (newConversation, s') \<Rightarrow>
          st\<lparr>storage := s', conversations := emptied (conversations st),
             activeConversationId := Some (conv_id newConversation),
             allConversations := [newConversation]\<rparr>)"

text \<open>
  The projection of a conversation on one model, as \<open>selectConversation\<close> (and the effect
  that follows a change of the active conversation) computes it.
\<close>

definition modelMessages :: "Conversation \<Rightarrow> string \<Rightarrow> ChatMessage list" where
  "modelMessages conversation mid =
     filter (\<lambda>msg. role msg = User \<or> modelId msg = Some mid) (messages conversation)"

definition selectConversation :: "env \<Rightarrow> string \<Rightarrow> app \<Rightarrow> app" where
  "selectConversation e conversationId st =
     (let st1 = st\<lparr>activeConversationId := Some conversationId,
                   storage := setActiveConversation e conversationId (storage st)\<rparr>
      in case getConversation e (storage st1) conversationId of
           None \<Rightarrow> st1
         | Some conversation \<Rightarrow>
             if models st = [] then st1
             else st1\<lparr>conversations :=
                    map_of (map (\<lambda>model. (model_id model,
                                   \<lparr>mc_modelId = Some (model_id model),
                                    mc_messages = modelMessages conversation (model_id model),
                                    isLoading = False, mc_error = None, retryCount = Some 0,
                                    canRetry = Some False, lastFailedPrompt = None\<rparr>))
                             (models st))\<rparr>)"

text \<open>The hook's \<open>deleteConversation\<close>.\<close>

definition deleteConversation :: "env \<Rightarrow> int \<Rightarrow> string \<Rightarrow> string \<Rightarrow> app \<Rightarrow> app" where
  "deleteConversation e now new_id conversationId st =
     (let s1 = svc_deleteConversation e conversationId (storage st);
          st1 = st\<lparr>storage := s1, allConversations := getAllConversations e s1\<rparr>
      in if activeConversationId st = Some conversationId
         then createNewConversation e now new_id st1
         else st1)"

section \<open>Example states\<close>

text \<open>A browser whose storage accepts every write and never looks full.\<close>

definition ex_env :: env where
  "ex_env = \<lparr>isAvailable = True, setItem_ok = (\<lambda>s. True), storage_size = (\<lambda>s. 0)\<rparr>"

definition ex_model :: AIModel where
  "ex_model = \<lparr>model_id = ''m'', model_name = ''m'', isEnabled = True, useHistory = False\<rparr>"

definition ex_hi :: ChatMessage where
  "ex_hi = \<lparr>role = User, content = ''hi'', timestamp = 1, modelId = None\<rparr>"

definition ex_window :: ModelConversation where
  "ex_window = \<lparr>mc_modelId = Some ''m'', mc_messages = [ex_hi], isLoading = False,
                mc_error = None, retryCount = Some 0, canRetry = Some False,
                lastFailedPrompt = None\<rparr>"

definition ex_conversation :: Conversation where
  "ex_conversation = \<lparr>conv_id = ''c1'', title = ''hi'', createdAt = 1, updatedAt = 1,
                      messages = [ex_hi], modelIds = []\<rparr>"

text \<open>One model \<open>m\<close>, one stored conversation \<open>c1\<close> holding the user message \<open>hi\<close>,
  active and shown in the window of \<open>m\<close>.\<close>

definition ex_state :: app where
  "ex_state = \<lparr>models = [ex_model], conversations = [''m'' \<mapsto> ex_window],
               allConversations = [ex_conversation], activeConversationId = Some ''c1'',
               app_error = None, retrySettings = None,
               storage = \<lparr>conversations_item = Some [ex_conversation],
                          active_item = Some ''c1''\<rparr>\<rparr>"

text \<open>The state before anything was stored: no conversation, none active.\<close>

definition ex_blank :: app where
  "ex_blank = \<lparr>models = [ex_model], conversations = Map.empty, allConversations = [],
               activeConversationId = None, app_error = None, retrySettings = None,
               storage = \<lparr>conversations_item = None, active_item = None\<rparr>\<rparr>"

definition ex_clock :: "nat \<Rightarrow> int" where
  "ex_clock k = 2 + int k"

definition ex_again :: PromptData where
  "ex_again = \<lparr>prompt_text = ''again'', attachments = []\<rparr>"

definition ex_notLoaded :: "nat \<Rightarrow> fetch_outcome" where
  "ex_notLoaded k = FetchResponse \<lparr>ok = False, status = 404, errorBody = Message ''Model not loaded'', body = NoBody\<rparr>"

definition ex_unloadedMidStream :: "nat \<Rightarrow> fetch_outcome" where
  "ex_unloadedMidStream k = FetchResponse \<lparr>ok = True, status = 200, errorBody = NoMessage,
      body = Body [Delta (Some ''He''), ErrorText ''Model unloaded''] None\<rparr>"

definition ex_offline :: "string \<Rightarrow> nat \<Rightarrow> fetch_outcome" where
  "ex_offline mid k = FetchRejected (Some ''Failed to fetch'')"

definition ex_failedWindow :: ModelConversation where
  "ex_failedWindow = ex_window\<lparr>mc_error := Some ''Failed to send message: Failed to fetch'',
                                canRetry := Some True, lastFailedPrompt := Some ex_again\<rparr>"

definition ex_failed :: app where
  "ex_failed = ex_state\<lparr>
      conversations := [''m'' \<mapsto> ex_failedWindow],
      retrySettings := Some (defaultRetrySettings\<lparr>retryOnlyModelErrors := False\<rparr>)\<rparr>"

text \<open>Fifty stored conversations, an imported one older than all of them, a browser
  whose storage always looks full, and a second conversation after \<open>c1\<close>.\<close>

definition ex_numbered :: "nat \<Rightarrow> Conversation" where
  "ex_numbered i = \<lparr>conv_id = ''conv_'' @ replicate i (CHR ''x''), title = ''New Conversation'',
                    createdAt = int i, updatedAt = int i, messages = [], modelIds = []\<rparr>"

definition ex_fifty :: store where
  "ex_fifty = \<lparr>conversations_item = Some (map ex_numbered [1..<51]), active_item = None\<rparr>"

definition ex_imported :: Conversation where
  "ex_imported = \<lparr>conv_id = ''imported'', title = ''old notes'', createdAt = 0, updatedAt = 0,
                  messages = [ex_hi], modelIds = []\<rparr>"

definition ex_fullEnv :: env where
  "ex_fullEnv = \<lparr>isAvailable = True, setItem_ok = (\<lambda>s. True), storage_size = (\<lambda>s. 6000000)\<rparr>"

definition ex_newer :: Conversation where
  "ex_newer = \<lparr>conv_id = ''c2'', title = ''later'', createdAt = 2, updatedAt = 2,
               messages = [], modelIds = []\<rparr>"

definition ex_c2 :: Conversation where
  "ex_c2 = \<lparr>conv_id = ''c2'', title = ''later'', createdAt = 2, updatedAt = 2,
            messages = [ex_hi\<lparr>content := ''later'', timestamp := 2\<rparr>], modelIds = []\<rparr>"

definition ex_two :: app where
  "ex_two = ex_state\<lparr>allConversations := [ex_conversation, ex_c2],
                     storage := \<lparr>conversations_item = Some [ex_conversation, ex_c2],
                                active_item = Some ''c1''\<rparr>\<rparr>"

text \<open>A model with the history flag, a reply of \<open>m\<close>, and a state whose active
  conversation \<open>c1\<close> is no longer stored.\<close>

definition ex_historyModel :: AIModel where
  "ex_historyModel = ex_model\<lparr>useHistory := True\<rparr>"

definition ex_reply :: ChatMessage where
  "ex_reply = \<lparr>role = Assistant, content = ''sure'', timestamp = 3, modelId = Some ''m''\<rparr>"

definition ex_orphan :: app where
  "ex_orphan = ex_state\<lparr>models := [ex_historyModel], allConversations := [ex_c2],
                       storage := \<lparr>conversations_item = Some [ex_c2],
                                  active_item = Some ''c2''\<rparr>\<rparr>"

definition ex_prompt50 :: PromptData where
  "ex_prompt50 = \<lparr>prompt_text = replicate 50 (CHR ''a''), attachments = []\<rparr>"

text \<open>Schedules: the only task resumes five times; the tasks of two models take turns.
  A server that streams three fragments, a second model, \<open>n\<close>, with the history flag,
  and the state with the conversations \<open>c1\<close> (active) and \<open>c2\<close> in which the two models with
  the history flag are enabled.\<close>

definition ex_retrySchedule :: "(nat \<times> int) list" where
  "ex_retrySchedule = [(0, 10), (0, 2010), (0, 2020), (0, 4020), (0, 4030)]"

definition ex_interleaved :: "(nat \<times> int) list" where
  "ex_interleaved = [(0, 6), (1, 6), (0, 7), (1, 7), (0, 8)]"

definition ex_streams :: "string \<Rightarrow> nat \<Rightarrow> fetch_outcome" where
  "ex_streams mid k = FetchResponse \<lparr>ok = True, status = 200, errorBody = NoMessage,
      body = Body [Delta (Some ''He''), Delta (Some ''l''), Delta (Some ''lo'')] None\<rparr>"

definition ex_other :: AIModel where
  "ex_other = \<lparr>model_id = ''n'', model_name = ''n'', isEnabled = True, useHistory = True\<rparr>"

definition ex_historyState :: app where
  "ex_historyState = ex_two\<lparr>models := [ex_historyModel, ex_other]\<rparr>"


section \<open>Properties\<close>

lemmas svc_defs = estimateStorageSize_def getAllConversations_def getConversation_def
  setItem_conversations_def setItem_active_def getActiveConversationId_def
  setActiveConversation_def clearActiveConversation_def svc_deleteConversation_def
  cleanupOldConversations_def putConversation_def saveConversation_def
  initialConversation_def createConversation_def addMessageToConversation_def
  getConversationHistory_def svc_clearAllConversations_def MAX_STORAGE_SIZE_def
  MAX_CONVERSATIONS_def

lemmas ex_defs = ex_env_def ex_model_def ex_hi_def ex_window_def ex_conversation_def
  ex_state_def ex_blank_def ex_prompt50_def ex_clock_def ex_again_def ex_notLoaded_def
  ex_unloadedMidStream_def ex_offline_def ex_failedWindow_def ex_failed_def
  ex_numbered_def ex_fifty_def ex_imported_def ex_fullEnv_def ex_newer_def ex_c2_def ex_two_def
  ex_historyModel_def ex_reply_def ex_orphan_def ex_retrySchedule_def ex_interleaved_def
  ex_streams_def ex_other_def ex_historyState_def

lemmas eval_defs = attempt_def onError_def sendMessage_def parseStreamingResponse_def
  apiMessages_def applyChunk_def shouldRetryError_def getRetryDelay_def defaultRetrySettings_def
  toLowerCase_def toLowerCase_char_def char_of_eq_iff ownsTrailing_def numberToString_def
  decimal.simps digitChar_def Let_def

lemmas run_defs = sendPromptToModels_def stepAt_def taskStep_def afterError_def beginAttempt_def

subsection \<open>The steps of a task\<close>

lemma foldl_invariant:
  assumes "P x" and "\<And>x a. P x \<Longrightarrow> a \<in> set as \<Longrightarrow> P (f x a)"
  shows "P (foldl f x as)"
  using assms by (induction as arbitrary: x) simp_all

lemma foldl_snoc: "foldl f x (xs @ [a]) = f (foldl f x xs) a"
  by simp

lemma onError_storage:
  "onError rs model prompt n err st = (c, st', evs) \<Longrightarrow> storage st' = storage st"
  by (auto simp: onError_def Let_def split: if_splits)

lemma onError_storage_eq [simp]: "storage (fst (snd (onError rs model prompt n err st))) = storage st"
  by (simp add: onError_def Let_def)

lemma onError_other_window_eq:
  "k \<noteq> model_id model \<Longrightarrow>
   conversations (fst (snd (onError rs model prompt n err st))) k = conversations st k"
  by (simp add: onError_def Let_def split: option.split)

lemma onError_messages:
  assumes "conversations st (model_id model) = Some mc"
  shows "\<exists>mc'. conversations (fst (snd (onError rs model prompt n err st))) (model_id model) = Some mc'
           \<and> mc_messages mc' = mc_messages mc"
  using assms by (simp add: onError_def Let_def)

lemma onError_events:
  "onError rs model prompt n err st = (c, st', evs) \<Longrightarrow>
   evs = (if c = Continue \<and> 0 < getRetryDelay rs n then [Waited (getRetryDelay rs n)] else [])"
  by (auto simp: onError_def Let_def split: if_splits)

lemma onError_eventsD:
  "onError rs model prompt n err st = (c, st', evs) \<Longrightarrow> filter isSent evs = []"
  by (auto simp: onError_def Let_def split: if_splits)

lemma onError_ContinueD:
  "onError rs model prompt n err st = (Continue, st', evs) \<Longrightarrow> enabled rs \<and> int n < maxRetries rs"
  by (simp add: onError_def Let_def shouldRetryError_def split: if_splits)

lemma onError_wait:
  "snd (snd (onError rs model prompt n err st)) =
     (if shouldRetryError rs err \<and> int n < maxRetries rs \<and> 0 < getRetryDelay rs n
      then [Waited (getRetryDelay rs n)] else [])"
  by (simp add: onError_def Let_def)

lemma afterError_cases:
  assumes "afterError e rs a model prompt n err st = (t', st', evs)"
  shows "st' = fst (snd (onError rs model prompt n err st))
       \<and> ((t' = Finished \<and> evs = [] \<and> fst (onError rs model prompt n err st) = Break)
          \<or> (t' = Waiting (n + 1) \<and> evs = [Waited (getRetryDelay rs n)]
               \<and> enabled rs \<and> int n < maxRetries rs)
          \<or> (t' = Requesting (n + 1)
               \<and> evs = [Sent (model_id model) (apiMessages e (storage st) a model prompt)]
               \<and> enabled rs \<and> int n < maxRetries rs))"
proof -
  obtain c st1 evs1 where oe: "onError rs model prompt n err st = (c, st1, evs1)"
    by (cases "onError rs model prompt n err st") auto
  note ev = onError_events [OF oe] and sto = onError_storage [OF oe]
  show ?thesis
  proof (cases c)
    case Break
    with assms oe ev show ?thesis by (simp add: afterError_def)
  next
    case Continue
    with oe onError_ContinueD have c: "enabled rs" "int n < maxRetries rs" by blast+
    with assms oe ev sto Continue show ?thesis
      by (auto simp: afterError_def beginAttempt_def split: if_splits)
  qed
qed

lemma afterError_result:
  "fst (afterError e rs a model prompt n err st) =
     (if shouldRetryError rs err \<and> int n < maxRetries rs
      then (if 0 < getRetryDelay rs n then Waiting (n + 1) else Requesting (n + 1))
      else Finished)
   \<and> snd (snd (afterError e rs a model prompt n err st)) =
     (if shouldRetryError rs err \<and> int n < maxRetries rs
      then (if 0 < getRetryDelay rs n then [Waited (getRetryDelay rs n)]
            else [Sent (model_id model) (apiMessages e (storage st) a model prompt)])
      else [])"
  by (simp add: afterError_def onError_def beginAttempt_def Let_def)

lemma taskStep_Requesting:
  "taskStep e server rs a model prompt now (Requesting n) st =
     (case sendMessage (model_id model) (server n) of
        Inl err \<Rightarrow> afterError e rs a model prompt n err st
      | Inr response \<Rightarrow>
          (Streaming n [] (fst (parseStreamingResponse response))
             (snd (parseStreamingResponse response)), st, []))"
  by (simp add: taskStep_def split: sum.split prod.split)

lemma taskStep_chunk:
  "taskStep e server rs a model prompt now (Streaming n buf (chunk # rest) failure) st =
     (Streaming n (buf @ chunk) rest failure,
      st\<lparr>conversations := applyChunk now (model_id model) (buf @ chunk) (conversations st)\<rparr>, [])"
  by (simp add: taskStep_def)

lemma taskStep_end:
  "taskStep e server rs a model prompt now (Streaming n buf [] failure) st =
     (case failure of
        Some err \<Rightarrow> afterError e rs a model prompt n err st
      | None \<Rightarrow>
          (Finished,
           (if buf \<noteq> [] \<and> a \<noteq> []
            then st\<lparr>storage := addMessageToConversation e now a
                   \<lparr>role = Assistant, content = buf, timestamp = now,
                    modelId = Some (model_id model)\<rparr> (storage st)\<rparr>
            else st), []))"
  by (simp add: taskStep_def)

lemma taskStep_Waiting:
  "taskStep e server rs a model prompt now (Waiting n) st =
     (fst (beginAttempt e rs a model prompt n st), st, snd (beginAttempt e rs a model prompt n st))"
  by (simp add: taskStep_def split: prod.split)

lemma taskStep_Finished:
  "taskStep e server rs a model prompt now Finished st = (Finished, st, [])"
  by (simp add: taskStep_def)

lemma sends_simps:
  "sends [] = 0" "sends [Waited d] = 0" "sends [Sent m msgs] = 1"
  "sends (xs @ ys) = sends xs + sends ys"
  by (simp_all add: sends_def)

lemma stepAt_single:
  "stepAt e server rs a [model] prompt (st, [t], log) (i, now) =
     (if i = 0
      then (case taskStep e (server (model_id model)) rs a model prompt now t st of
              (t', st', evs) \<Rightarrow> (st', [t'], log @ evs))
      else (st, [t], log))"
  by (simp add: stepAt_def)

lemma taskStep_sent:
  assumes "taskStep e server rs a model prompt now t st = (t', st', evs)"
    and "Sent m msgs \<in> set evs"
  shows "m = model_id model \<and> msgs = apiMessages e (storage st) a model prompt"
proof (cases t)
  case (Requesting n)
  show ?thesis
  proof (cases "sendMessage (model_id model) (server n)")
    case (Inl err)
    with assms Requesting have "afterError e rs a model prompt n err st = (t', st', evs)"
      by (simp add: taskStep_Requesting)
    from afterError_cases [OF this] assms(2) show ?thesis by auto
  next
    case (Inr response)
    with assms Requesting show ?thesis by (auto simp: taskStep_Requesting)
  qed
next
  case (Streaming n buf chunks failure)
  show ?thesis
  proof (cases chunks)
    case (Cons chunk rest)
    with assms Streaming show ?thesis by (auto simp: taskStep_chunk)
  next
    case Nil
    show ?thesis
    proof (cases failure)
      case None
      with assms Streaming Nil show ?thesis by (auto simp: taskStep_end)
    next
      case (Some err)
      with assms Streaming Nil have "afterError e rs a model prompt n err st = (t', st', evs)"
        by (simp add: taskStep_end)
      from afterError_cases [OF this] assms(2) show ?thesis by auto
    qed
  qed
next
  case (Waiting n)
  with assms show ?thesis by (auto simp: taskStep_Waiting beginAttempt_def split: if_splits)
next
  case Finished
  with assms show ?thesis by (auto simp: taskStep_Finished)
qed


lemma applyChunk_other: "k \<noteq> mid \<Longrightarrow> applyChunk now mid buf convs k = convs k"
  by (simp add: applyChunk_def Let_def split: option.split)

lemma taskStep_other_window:
  assumes "taskStep e server rs a model prompt now t st = (t', st', evs)"
    and "k \<noteq> model_id model"
  shows "conversations st' k = conversations st k"
proof (cases t)
  case (Requesting n)
  show ?thesis
  proof (cases "sendMessage (model_id model) (server n)")
    case (Inl err)
    with assms Requesting have "afterError e rs a model prompt n err st = (t', st', evs)"
      by (simp add: taskStep_Requesting)
    from afterError_cases [OF this] assms(2) show ?thesis
      by (simp add: onError_other_window_eq)
  next
    case (Inr response)
    with assms Requesting show ?thesis by (auto simp: taskStep_Requesting)
  qed
next
  case (Streaming n buf chunks failure)
  show ?thesis
  proof (cases chunks)
    case (Cons chunk rest)
    with assms Streaming show ?thesis by (auto simp: taskStep_chunk applyChunk_other)
  next
    case Nil
    show ?thesis
    proof (cases failure)
      case None
      with assms Streaming Nil show ?thesis by (auto simp: taskStep_end split: if_splits)
    next
      case (Some err)
      with assms Streaming Nil have "afterError e rs a model prompt n err st = (t', st', evs)"
        by (simp add: taskStep_end)
      from afterError_cases [OF this] assms(2) show ?thesis
        by (simp add: onError_other_window_eq)
    qed
  qed
next
  case (Waiting n)
  with assms show ?thesis by (auto simp: taskStep_Waiting)
next
  case Finished
  with assms show ?thesis by (auto simp: taskStep_Finished)
qed

lemma run_log_prefix:
  "\<exists>rest. snd (snd (foldl (stepAt e server rs a targetModels prompt) (st, tasks, log) schedule))
            = log @ rest"
proof -
  let ?P = "\<lambda>x. case x of (st', tasks', log') \<Rightarrow> \<exists>rest. log' = log @ rest"
  have "?P (foldl (stepAt e server rs a targetModels prompt) (st, tasks, log) schedule)"
    by (rule foldl_invariant [where P = ?P]) (auto simp: stepAt_def split: prod.splits)
  then show ?thesis by (auto split: prod.splits)
qed

lemma sendPromptToModels_run:
  assumes "cl_activeConversationId cl = Some a" and "a \<noteq> []"
    and "rs = (case cl_retrySettings cl of Some r \<Rightarrow> r | None \<Rightarrow> defaultRetrySettings)"
  shows "snd (sendPromptToModels e server cl targetModels prompt schedule st) =
           snd (snd (foldl (stepAt e server rs a targetModels prompt)
              (st, map (\<lambda>model. fst (beginAttempt e rs a model prompt 0 st)) targetModels,
               concat (map (\<lambda>model. snd (beginAttempt e rs a model prompt 0 st)) targetModels))
              schedule))"
  using assms by (simp add: sendPromptToModels_def Let_def comp_def split: prod.split)


lemma sendPromptToModels_conversations:
  assumes "cl_activeConversationId cl = Some a" and "a \<noteq> []"
    and "rs = (case cl_retrySettings cl of Some r \<Rightarrow> r | None \<Rightarrow> defaultRetrySettings)"
  shows "conversations (fst (sendPromptToModels e server cl targetModels prompt schedule st)) =
           conversations (fst (foldl (stepAt e server rs a targetModels prompt)
              (st, map (\<lambda>model. fst (beginAttempt e rs a model prompt 0 st)) targetModels,
               concat (map (\<lambda>model. snd (beginAttempt e rs a model prompt 0 st)) targetModels))
              schedule))"
  using assms by (simp add: sendPromptToModels_def Let_def comp_def split: prod.split)


text \<open>
  Every task ends: a task that is resumed often enough is finished, whatever the tasks
  of the other models do, and a dispatch in which every task is resumed often enough
  refreshes the list of conversations.
\<close>

lemma task_finishes:
  assumes i: "i < length targetModels" and len: "length tasks = length targetModels"
  shows "\<exists>N. \<forall>schedule. N \<le> length (filter (\<lambda>x. fst x = i) schedule) \<longrightarrow>
           fst (snd (foldl (stepAt e server rs a targetModels prompt) (st, tasks, log) schedule)) ! i
             = Finished"
proof -
  let ?model = "targetModels ! i"
  let ?server = "server (model_id ?model)"
  define frags where "frags = (\<lambda>j. case sendMessage (model_id ?model) (?server j) of
       Inl err \<Rightarrow> 0 | Inr response \<Rightarrow> length (fst (parseStreamingResponse response)))"
  define total where "total = (\<lambda>n. sum_list (map (\<lambda>j. 4 + frags j) [n..<nat (maxRetries rs + 1)]))"
  define left where "left = (\<lambda>t. case t of
       Requesting n \<Rightarrow> 3 + frags n + total (n + 1)
     | Streaming n buf rest failure \<Rightarrow> 2 + length rest + total (n + 1)
     | Waiting n \<Rightarrow> 1 + total n
     | Finished \<Rightarrow> 0)"
  have total_step: "total n = 4 + frags n + total (n + 1)" if "int n \<le> maxRetries rs" for n
  proof -
    have "n < nat (maxRetries rs + 1)" using that by simp
    then show ?thesis by (simp add: total_def upt_conv_Cons)
  qed
  have after: "left (fst (afterError e rs a ?model prompt n err st1)) < 2 + total (n + 1)"
    for n err st1
  proof (cases "shouldRetryError rs err \<and> int n < maxRetries rs")
    case False
    then show ?thesis using afterError_result [of e rs a ?model prompt n err st1]
      by (auto simp: left_def)
  next
    case True
    then have "int (n + 1) \<le> maxRetries rs" by simp
    from total_step [OF this] True show ?thesis
      using afterError_result [of e rs a ?model prompt n err st1]
      by (auto simp: left_def)
  qed
  have step: "(t = Finished \<and> t' = Finished) \<or> left t' < left t"
    if s: "taskStep e ?server rs a ?model prompt now t st1 = (t', st', evs)"
    for t st1 now t' st' evs
  proof (cases t)
    case (Requesting n)
    show ?thesis
    proof (cases "sendMessage (model_id ?model) (?server n)")
      case (Inl err)
      with s Requesting have "t' = fst (afterError e rs a ?model prompt n err st1)"
        by (simp add: taskStep_Requesting)
      with after [of n err st1] Requesting show ?thesis by (simp add: left_def)
    next
      case (Inr response)
      with s Requesting show ?thesis
        by (auto simp: taskStep_Requesting left_def frags_def)
    qed
  next
    case (Streaming n buf chunks failure)
    show ?thesis
    proof (cases chunks)
      case (Cons chunk rest)
      with s Streaming show ?thesis by (auto simp: taskStep_chunk left_def)
    next
      case Nil
      show ?thesis
      proof (cases failure)
        case None
        with s Streaming Nil show ?thesis by (auto simp: taskStep_end left_def)
      next
        case (Some err)
        with s Streaming Nil have "t' = fst (afterError e rs a ?model prompt n err st1)"
          by (simp add: taskStep_end)
        with after [of n err st1] Streaming Nil show ?thesis by (simp add: left_def)
      qed
    qed
  next
    case (Waiting n)
    show ?thesis
    proof (cases "int n \<le> maxRetries rs")
      case True
      from total_step [OF True] s Waiting True show ?thesis
        by (auto simp: taskStep_Waiting beginAttempt_def left_def)
    next
      case False
      with s Waiting show ?thesis by (auto simp: taskStep_Waiting beginAttempt_def left_def)
    qed
  next
    case Finished
    with s show ?thesis by (auto simp: taskStep_Finished)
  qed
  have inv: "case foldl (stepAt e server rs a targetModels prompt) (st, tasks, log) schedule of
          (st', tasks', log') \<Rightarrow>
            length tasks' = length targetModels
            \<and> (tasks' ! i = Finished
               \<or> left (tasks' ! i) + length (filter (\<lambda>x. fst x = i) schedule) \<le> left (tasks ! i))"
    for schedule
  proof (induction schedule rule: rev_induct)
    case Nil
    show ?case using len by simp
  next
    case (snoc entry schedule)
    obtain st1 tasks1 log1
      where run: "foldl (stepAt e server rs a targetModels prompt) (st, tasks, log) schedule
                    = (st1, tasks1, log1)"
      by (cases "foldl (stepAt e server rs a targetModels prompt) (st, tasks, log) schedule") auto
    with snoc.IH have len1: "length tasks1 = length targetModels"
      and ih: "tasks1 ! i = Finished
               \<or> left (tasks1 ! i) + length (filter (\<lambda>x. fst x = i) schedule) \<le> left (tasks ! i)"
      by simp_all
    obtain j now where en: "entry = (j, now)" by (cases entry) auto
    show ?case
    proof (cases "j < length tasks1 \<and> j < length targetModels")
      case False
      then have ne: "j \<noteq> i" using i len1 by auto
      have "stepAt e server rs a targetModels prompt (st1, tasks1, log1) entry = (st1, tasks1, log1)"
        using False en by (auto simp: stepAt_def)
      then have "foldl (stepAt e server rs a targetModels prompt) (st, tasks, log) (schedule @ [entry])
                   = (st1, tasks1, log1)"
        by (simp only: foldl_snoc run)
      with ne len1 ih en show ?thesis by simp
    next
      case True
      obtain t' st' evs
        where s: "taskStep e (server (model_id (targetModels ! j))) rs a (targetModels ! j) prompt
                    now (tasks1 ! j) st1 = (t', st', evs)"
        by (cases "taskStep e (server (model_id (targetModels ! j))) rs a (targetModels ! j) prompt
                    now (tasks1 ! j) st1") auto
      have "stepAt e server rs a targetModels prompt (st1, tasks1, log1) entry
              = (st', tasks1[j := t'], log1 @ evs)"
        using True s en by (simp add: stepAt_def)
      then have res: "foldl (stepAt e server rs a targetModels prompt) (st, tasks, log)
                        (schedule @ [entry])
                   = (st', tasks1[j := t'], log1 @ evs)"
        by (simp only: foldl_snoc run)
      show ?thesis
      proof (cases "j = i")
        case False
        with res len1 ih en show ?thesis by simp
      next
        case same: True
        from step [of now "tasks1 ! i" st1 t' st' evs] s same
        have "(tasks1 ! i = Finished \<and> t' = Finished) \<or> left t' < left (tasks1 ! i)" by simp
        moreover have "left Finished = 0" by (simp add: left_def)
        ultimately show ?thesis using ih True same res len1 en by auto
      qed
    qed
  qed
  have pos: "t = Finished \<or> 0 < left t" for t by (cases t) (simp_all add: left_def)
  have "fst (snd (foldl (stepAt e server rs a targetModels prompt) (st, tasks, log) schedule)) ! i
          = Finished"
    if "left (tasks ! i) \<le> length (filter (\<lambda>x. fst x = i) schedule)" for schedule
  proof -
    obtain st1 tasks1 log1
      where run: "foldl (stepAt e server rs a targetModels prompt) (st, tasks, log) schedule
                    = (st1, tasks1, log1)"
      by (cases "foldl (stepAt e server rs a targetModels prompt) (st, tasks, log) schedule") auto
    from inv [of schedule] run
    have "tasks1 ! i = Finished
          \<or> left (tasks1 ! i) + length (filter (\<lambda>x. fst x = i) schedule) \<le> left (tasks ! i)"
      by simp
    with that pos [of "tasks1 ! i"] have "tasks1 ! i = Finished" by auto
    with run show ?thesis by simp
  qed
  then show ?thesis by blast
qed

lemma run_length:
  "length (fst (snd (foldl (stepAt e server rs a targetModels prompt) (st, tasks, log) schedule)))
     = length tasks"
proof -
  let ?P = "\<lambda>x. case x of (st', tasks', log') \<Rightarrow> length tasks' = length tasks"
  have "?P (foldl (stepAt e server rs a targetModels prompt) (st, tasks, log) schedule)"
    by (rule foldl_invariant [where P = ?P]) (auto simp: stepAt_def split: prod.splits)
  then show ?thesis by (auto split: prod.splits)
qed

lemma common_bound:
  fixes R :: "nat \<Rightarrow> nat \<Rightarrow> bool"
  assumes "\<And>i. i < n \<Longrightarrow> \<exists>N. R i N" and mono: "\<And>i N N'. R i N \<Longrightarrow> N \<le> N' \<Longrightarrow> R i N'"
  shows "\<exists>N. \<forall>i<n. R i N"
  using assms(1)
proof (induction n)
  case 0
  show ?case by simp
next
  case (Suc n)
  then obtain N where N: "\<forall>i<n. R i N" by fastforce
  from Suc.prems [of n] obtain N' where N': "R n N'" by auto
  have "\<forall>i<Suc n. R i (max N N')"
    using N N' mono by (auto simp: less_Suc_eq)
  then show ?case by blast
qed

lemma dispatch_settles:
  assumes act: "cl_activeConversationId cl = Some a" "a \<noteq> []"
  shows "\<exists>N. \<forall>schedule.
           (\<forall>i<length targetModels. N \<le> length (filter (\<lambda>x. fst x = i) schedule)) \<longrightarrow>
           allConversations (fst (sendPromptToModels e server cl targetModels prompt schedule st)) =
             getAllConversations e
               (storage (fst (sendPromptToModels e server cl targetModels prompt schedule st)))"
proof -
  define rs where "rs = (case cl_retrySettings cl of Some r \<Rightarrow> r | None \<Rightarrow> defaultRetrySettings)"
  let ?tasks = "map (\<lambda>model. fst (beginAttempt e rs a model prompt 0 st)) targetModels"
  let ?log0 = "concat (map (\<lambda>model. snd (beginAttempt e rs a model prompt 0 st)) targetModels)"
  let ?run = "\<lambda>schedule. foldl (stepAt e server rs a targetModels prompt) (st, ?tasks, ?log0) schedule"
  let ?R = "\<lambda>i N. \<forall>schedule. N \<le> length (filter (\<lambda>x. fst x = i) schedule) \<longrightarrow>
                      fst (snd (?run schedule)) ! i = Finished"
  have len: "length ?tasks = length targetModels" by simp
  have "\<exists>N. \<forall>i<length targetModels. ?R i N"
  proof (rule common_bound)
    fix i assume "i < length targetModels"
    then show "\<exists>N. ?R i N" using len by (rule task_finishes)
  next
    fix i N N' assume "?R i N" and "N \<le> N'"
    then show "?R i N'" by (meson order_trans)
  qed
  then obtain N where N: "\<forall>i<length targetModels. ?R i N" by blast
  have "allConversations (fst (sendPromptToModels e server cl targetModels prompt schedule st)) =
             getAllConversations e
               (storage (fst (sendPromptToModels e server cl targetModels prompt schedule st)))"
    if all: "\<forall>i<length targetModels. N \<le> length (filter (\<lambda>x. fst x = i) schedule)" for schedule
  proof -
    obtain st' tasks' log' where run: "?run schedule = (st', tasks', log')"
      by (cases "?run schedule") auto
    have l: "length tasks' = length targetModels"
      using run_length [of e server rs a targetModels prompt st ?tasks ?log0 schedule] run by simp
    have "tasks' ! i = Finished" if "i < length tasks'" for i
    proof -
      from that l have i: "i < length targetModels" by simp
      with N all have "fst (snd (?run schedule)) ! i = Finished" by blast
      with run show ?thesis by simp
    qed
    then have "\<forall>i<length tasks'. tasks' ! i = Finished" by blast
    then have "list_all isFinished tasks'" by (auto simp: list_all_length)
    with run act show ?thesis
      by (simp add: sendPromptToModels_def rs_def [symmetric] Let_def comp_def)
  qed
  then show ?thesis by blast
qed

subsection \<open>Retry delay\<close>

text \<open>
  C7. The retry delay is \<open>retryDelay \<times> 2^n\<close> for the strategy \<open>exponential\<close>, \<open>retryDelay\<close>
  for \<open>fixed\<close> and 0 for \<open>immediate\<close>, where \<open>n\<close> is the argument of \<open>getRetryDelay\<close>; with
  the base delay 2000 the exponential delays of \<open>n = 0, 1, 2, 3\<close> are 2000, 4000, 8000 and
  16000. The loop passes the number of retries already made: the wait that follows the
  failure of attempt \<open>n\<close> (counted from 0), when there is one, lasts \<open>getRetryDelay rs n\<close>,
  and no wait is made for a delay of 0. A task whose attempt \<open>n\<close> failed and is to be
  retried waits for the timer exactly when that delay is positive, and issues the next
  request at once when it is not.
\<close>

theorem getRetryDelay_by_strategy:
  "getRetryDelay (rs\<lparr>retryStrategy := Exponential\<rparr>) n = retryDelay rs * 2 ^ n
   \<and> getRetryDelay (rs\<lparr>retryStrategy := Fixed\<rparr>) n = retryDelay rs
   \<and> getRetryDelay (rs\<lparr>retryStrategy := Immediate\<rparr>) n = 0
   \<and> map (getRetryDelay (rs\<lparr>retryStrategy := Exponential, retryDelay := 2000\<rparr>)) [0, 1, 2, 3]
       = [2000, 4000, 8000, 16000]
   \<and> snd (snd (onError rs model prompt n err st)) =
       (if shouldRetryError rs err \<and> int n < maxRetries rs \<and> 0 < getRetryDelay rs n
        then [Waited (getRetryDelay rs n)] else [])
   \<and> fst (afterError e rs a model prompt n err st) =
       (if shouldRetryError rs err \<and> int n < maxRetries rs
        then (if 0 < getRetryDelay rs n then Waiting (n + 1) else Requesting (n + 1))
        else Finished)
   \<and> snd (snd (afterError e rs a model prompt n err st)) =
       (if shouldRetryError rs err \<and> int n < maxRetries rs
        then (if 0 < getRetryDelay rs n then [Waited (getRetryDelay rs n)]
              else [Sent (model_id model) (apiMessages e (storage st) a model prompt)])
        else [])"
proof -
  have "getRetryDelay (rs\<lparr>retryStrategy := Exponential\<rparr>) n = retryDelay rs * 2 ^ n
   \<and> getRetryDelay (rs\<lparr>retryStrategy := Fixed\<rparr>) n = retryDelay rs
   \<and> getRetryDelay (rs\<lparr>retryStrategy := Immediate\<rparr>) n = 0
   \<and> map (getRetryDelay (rs\<lparr>retryStrategy := Exponential, retryDelay := 2000\<rparr>)) [0, 1, 2, 3]
       = [2000, 4000, 8000, 16000]"
    by (simp add: getRetryDelay_def)
  then show ?thesis
    using afterError_result [of e rs a model prompt n err st]
    by (simp only: onError_wait simp_thms)
qed

subsection \<open>Titles\<close>

lemma generateTitle_cases:
  "generateTitle p = (if 50 \<le> length (trim p) then take 50 (trim p) @ ''...'' else trim p)"
  by (simp add: generateTitle_def Let_def min_def)

lemma trim_a50: "trim (replicate 50 (CHR ''a'')) = replicate 50 (CHR ''a'')"
  by (simp add: trim_def isWhiteSpace_def)

lemma generateTitle_a50:
  "generateTitle (replicate 50 (CHR ''a'')) = replicate 50 (CHR ''a'') @ ''...''"
  by (simp add: generateTitle_def trim_a50)

text \<open>
  C9. A prompt of exactly 50 characters, submitted when no conversation is active: the
  conversation created for it gets the 50 characters followed by an ellipsis as its
  title, although nothing was cut off.
\<close>

theorem title_of_fifty_character_prompt:
  "map title (getAllConversations ex_env
       (storage (snd (submitUserMessage ex_env 5 ''c1'' ex_prompt50 ex_blank))))
   = [replicate 50 (CHR ''a'') @ ''...'']"
  by (simp add: submitUserMessage_def userMessage_def svc_defs ex_defs generateTitle_a50 Let_def
        showUserMessage_def)

subsection \<open>Outbound messages\<close>

text \<open>
  C6. Every attempt of a model's task sends: with the history flag set, every message of
  the stored active conversation, role and content, whichever model owns it (nothing when
  the conversation is not stored); without it, the single user message of the prompt.
  This is the list of an attempt that runs without interruption, the list of the request
  a task issues when it begins an attempt, and the list of every request that a
  resumption of the task issues, built from the store as it is at that moment.
\<close>

theorem apiMessages_of_attempt:
  assumes "currentActiveId \<noteq> []"
  shows "(\<exists>evs. snd (snd (attempt e now outcome rs currentActiveId model prompt n st)) =
           Sent (model_id model)
             (if useHistory model
              then map (\<lambda>msg. (role msg, content msg))
                     (case getConversation e (storage st) currentActiveId of
                        None \<Rightarrow> [] | Some conversation \<Rightarrow> messages conversation)
              else [(User, prompt_text prompt)]) # evs)
     \<and> beginAttempt e rs currentActiveId model prompt n st =
         (if int n \<le> maxRetries rs
          then (Requesting n,
                [Sent (model_id model)
                   (if useHistory model
                    then map (\<lambda>msg. (role msg, content msg))
                           (case getConversation e (storage st) currentActiveId of
                              None \<Rightarrow> [] | Some conversation \<Rightarrow> messages conversation)
                    else [(User, prompt_text prompt)])])
          else (Finished, []))
     \<and> (\<forall>server t t' st' evs m msgs.
           taskStep e server rs currentActiveId model prompt now t st = (t', st', evs)
           \<and> Sent m msgs \<in> set evs \<longrightarrow>
           m = model_id model
           \<and> msgs = (if useHistory model
                     then map (\<lambda>msg. (role msg, content msg))
                            (case getConversation e (storage st) currentActiveId of
                               None \<Rightarrow> [] | Some conversation \<Rightarrow> messages conversation)
                     else [(User, prompt_text prompt)]))"
proof -
  have a: "apiMessages e (storage st) currentActiveId model prompt =
        (if useHistory model
              then map (\<lambda>msg. (role msg, content msg))
                     (case getConversation e (storage st) currentActiveId of
                        None \<Rightarrow> [] | Some conversation \<Rightarrow> messages conversation)
              else [(User, prompt_text prompt)])"
    using assms by (simp add: apiMessages_def getConversationHistory_def)
  have 1: "\<exists>evs. snd (snd (attempt e now outcome rs currentActiveId model prompt n st)) =
           Sent (model_id model) (apiMessages e (storage st) currentActiveId model prompt) # evs"
    by (simp add: attempt_def Let_def split: sum.split prod.split option.split)
  have 2: "beginAttempt e rs currentActiveId model prompt n st =
         (if int n \<le> maxRetries rs
          then (Requesting n,
                [Sent (model_id model) (apiMessages e (storage st) currentActiveId model prompt)])
          else (Finished, []))"
    by (simp add: beginAttempt_def)
  have 3: "\<forall>server t t' st' evs m msgs.
           taskStep e server rs currentActiveId model prompt now t st = (t', st', evs)
           \<and> Sent m msgs \<in> set evs \<longrightarrow>
           m = model_id model
           \<and> msgs = apiMessages e (storage st) currentActiveId model prompt"
    using taskStep_sent by blast
  from 1 2 3 show ?thesis by (simp only: a)
qed

text \<open>
The theorem at the example state, for \<open>m\<close> with the history flag set.
\<close>

theorem apiMessages_of_attempt_witness:
  "''c1'' \<noteq> []
   \<and> (\<exists>evs. snd (snd (attempt ex_env 2 FetchAborted defaultRetrySettings ''c1''
                        (ex_model\<lparr>useHistory := True\<rparr>) \<lparr>prompt_text = ''again'', attachments = []\<rparr>
                        0 ex_state))
        = Sent ''m'' [(User, ''hi'')] # evs)
   \<and> beginAttempt ex_env defaultRetrySettings ''c1'' (ex_model\<lparr>useHistory := True\<rparr>)
        \<lparr>prompt_text = ''again'', attachments = []\<rparr> 0 ex_state
       = (Requesting 0, [Sent ''m'' [(User, ''hi'')]])"
proof -
  have h: "''c1'' \<noteq> []" by simp
  note th = apiMessages_of_attempt [OF h, of ex_env 2 FetchAborted defaultRetrySettings
          "ex_model\<lparr>useHistory := True\<rparr>" "\<lparr>prompt_text = ''again'', attachments = []\<rparr>" 0 ex_state]
  have g: "getConversation ex_env (storage ex_state) ''c1'' = Some ex_conversation"
    by (simp add: svc_defs ex_defs)
  have m: "map (\<lambda>msg. (role msg, content msg)) (messages ex_conversation) = [(User, ''hi'')]"
    "model_id (ex_model\<lparr>useHistory := True\<rparr>) = ''m''"
    "0 \<le> maxRetries defaultRetrySettings"
    by (simp_all add: ex_conversation_def ex_hi_def ex_model_def defaultRetrySettings_def)
  from th [THEN conjunct1] have 1: "\<exists>evs. snd (snd (attempt ex_env 2 FetchAborted defaultRetrySettings ''c1''
                        (ex_model\<lparr>useHistory := True\<rparr>) \<lparr>prompt_text = ''again'', attachments = []\<rparr>
                        0 ex_state))
        = Sent ''m'' [(User, ''hi'')] # evs"
    by (simp add: g m)
  from th [THEN conjunct2, THEN conjunct1]
  have 2: "beginAttempt ex_env defaultRetrySettings ''c1'' (ex_model\<lparr>useHistory := True\<rparr>)
        \<lparr>prompt_text = ''again'', attachments = []\<rparr> 0 ex_state
       = (Requesting 0, [Sent ''m'' [(User, ''hi'')]])"
    by (simp add: g m)
  from h 1 2 show ?thesis by (intro conjI)
qed

subsection \<open>Streaming\<close>

lemma update_last: "xs \<noteq> [] \<Longrightarrow> xs[length xs - Suc 0 := x] = butlast xs @ [x]"
  by (cases xs rule: rev_cases) simp_all

lemma ownsTrailing_snoc:
  "ownsTrailing mid (xs @ [x]) = (role x = Assistant \<and> modelId x = Some mid)"
  by (simp add: ownsTrailing_def)

lemma applyChunk_Some:
  assumes "convs mid = Some mc"
  shows "\<exists>mc'. applyChunk now mid buf convs mid = Some mc'
     \<and> ownsTrailing mid (mc_messages mc')
     \<and> content (last (mc_messages mc')) = buf
     \<and> butlast (mc_messages mc') =
         (if ownsTrailing mid (mc_messages mc) then butlast (mc_messages mc)
          else mc_messages mc)"
proof (cases "ownsTrailing mid (mc_messages mc)")
  case True
  then have ne: "mc_messages mc \<noteq> []"
    and own: "role (last (mc_messages mc)) = Assistant" "modelId (last (mc_messages mc)) = Some mid"
    by (simp_all add: ownsTrailing_def)
  show ?thesis
    using assms True ne own by (simp add: applyChunk_def Let_def update_last ownsTrailing_snoc)
next
  case False
  then show ?thesis
    using assms by (simp add: applyChunk_def Let_def ownsTrailing_snoc)
qed

lemma consumeChunks_append:
  "consumeChunks now mid (xs @ ys) buf convs =
     consumeChunks now mid ys (fst (consumeChunks now mid xs buf convs))
       (snd (consumeChunks now mid xs buf convs))"
  by (induction xs arbitrary: buf convs) simp_all

lemma consumeChunks_fst: "fst (consumeChunks now mid chunks buf convs) = buf @ concat chunks"
  by (induction chunks arbitrary: buf convs) simp_all

lemma consumeChunks_snoc:
  "snd (consumeChunks now mid (xs @ [x]) buf convs) =
     applyChunk now mid (buf @ concat xs @ x) (snd (consumeChunks now mid xs buf convs))"
  by (simp add: consumeChunks_append consumeChunks_fst)

lemma consumeChunks_trailing:
  assumes "convs mid = Some mc" and "chunks \<noteq> []"
  shows "\<exists>mc'. snd (consumeChunks now mid chunks buf convs) mid = Some mc'
     \<and> ownsTrailing mid (mc_messages mc')
     \<and> content (last (mc_messages mc')) = buf @ concat chunks
     \<and> butlast (mc_messages mc') =
         (if ownsTrailing mid (mc_messages mc) then butlast (mc_messages mc)
          else mc_messages mc)"
  using assms(2,1)
proof (induction chunks rule: rev_nonempty_induct)
  case (single x)
  then show ?case using applyChunk_Some [of convs mid mc now "buf @ x"] by simp
next
  case (snoc x xs)
  then obtain mc1 where 1: "snd (consumeChunks now mid xs buf convs) mid = Some mc1"
     "ownsTrailing mid (mc_messages mc1)"
     "butlast (mc_messages mc1) =
         (if ownsTrailing mid (mc_messages mc) then butlast (mc_messages mc)
          else mc_messages mc)"
    by blast
  from applyChunk_Some [of "snd (consumeChunks now mid xs buf convs)" mid mc1 now
         "buf @ concat xs @ x"] 1
  show ?case by (simp add: consumeChunks_snoc)
qed

lemma attempt_window:
  assumes resp: "sendMessage (model_id model) outcome = Inr response"
                "parseStreamingResponse response = (chunks, failure)"
    and win: "snd (consumeChunks now (model_id model) chunks [] (conversations st)) (model_id model)
                = Some mc1"
  shows "\<exists>mc'. conversations (fst (snd (attempt e now outcome rs a model prompt n st))) (model_id model)
                  = Some mc'
           \<and> mc_messages mc' = mc_messages mc1"
proof -
  obtain buf convs'
    where cc: "consumeChunks now (model_id model) chunks [] (conversations st) = (buf, convs')"
    by (cases "consumeChunks now (model_id model) chunks [] (conversations st)") auto
  with win have w: "convs' (model_id model) = Some mc1" by simp
  show ?thesis
  proof (cases failure)
    case None
    with resp cc w show ?thesis by (simp add: attempt_def Let_def)
  next
    case (Some err)
    have "conversations (st\<lparr>conversations := convs'\<rparr>) (model_id model) = Some mc1"
      using w by simp
    from onError_messages [OF this, of rs prompt n err] resp cc Some show ?thesis
      by (auto simp: attempt_def Let_def split: prod.split)
  qed
qed

text \<open>
  The task of the \<open>i\<close>-th target model, whose request \<open>n\<close> is under way and will be
  answered by a stream of the fragments \<open>chunks\<close>, while the schedule resumes it at most
  once per fragment and once for the response: it has consumed as many fragments as it
  was resumed after the response, whatever the tasks of the other models did in between,
  and from the first fragment on its window ends in its message holding these fragments.
\<close>

lemma run_streaming:
  assumes i: "i < length targetModels" and mid: "model_id (targetModels ! i) = mid"
    and uniq: "\<forall>j. j < length targetModels \<and> j \<noteq> i \<longrightarrow> model_id (targetModels ! j) \<noteq> mid"
    and len: "length tasks = length targetModels"
    and t0: "tasks ! i = Requesting n"
    and win: "conversations st mid = Some mc"
    and resp: "sendMessage mid (server mid n) = Inr response"
              "parseStreamingResponse response = (chunks, failure)"
  shows "length (filter (\<lambda>x. fst x = i) schedule) \<le> length chunks + 1 \<longrightarrow>
     (case foldl (stepAt e server rs a targetModels prompt) (st, tasks, log) schedule of
        (st', tasks', log') \<Rightarrow>
          length tasks' = length targetModels
          \<and> (case length (filter (\<lambda>x. fst x = i) schedule) of
               0 \<Rightarrow> tasks' ! i = Requesting n \<and> conversations st' mid = Some mc
             | Suc k \<Rightarrow>
                 tasks' ! i = Streaming n (concat (take k chunks)) (drop k chunks) failure
                 \<and> (case k of
                      0 \<Rightarrow> conversations st' mid = Some mc
                    | Suc k' \<Rightarrow>
                        (\<exists>mc'. conversations st' mid = Some mc'
                           \<and> ownsTrailing mid (mc_messages mc')
                           \<and> content (last (mc_messages mc')) = concat (take k chunks)
                           \<and> butlast (mc_messages mc') =
                               (if ownsTrailing mid (mc_messages mc) then butlast (mc_messages mc)
                                else mc_messages mc)))))"
proof (induction schedule rule: rev_induct)
  case Nil
  show ?case using len t0 win by simp
next
  case (snoc entry schedule)
  let ?c = "length (filter (\<lambda>x. fst x = i) schedule)"
  let ?B = "if ownsTrailing mid (mc_messages mc) then butlast (mc_messages mc) else mc_messages mc"
  show ?case
  proof
    assume bound: "length (filter (\<lambda>x. fst x = i) (schedule @ [entry])) \<le> length chunks + 1"
    then have cb: "?c \<le> length chunks + 1" by (simp split: if_splits)
    obtain st1 tasks1 log1
      where run: "foldl (stepAt e server rs a targetModels prompt) (st, tasks, log) schedule
                    = (st1, tasks1, log1)"
      by (cases "foldl (stepAt e server rs a targetModels prompt) (st, tasks, log) schedule") auto
    from snoc.IH cb run have len1: "length tasks1 = length targetModels"
      and ih: "case ?c of
               0 \<Rightarrow> tasks1 ! i = Requesting n \<and> conversations st1 mid = Some mc
             | Suc k \<Rightarrow>
                 tasks1 ! i = Streaming n (concat (take k chunks)) (drop k chunks) failure
                 \<and> (case k of
                      0 \<Rightarrow> conversations st1 mid = Some mc
                    | Suc k' \<Rightarrow>
                        (\<exists>mc'. conversations st1 mid = Some mc'
                           \<and> ownsTrailing mid (mc_messages mc')
                           \<and> content (last (mc_messages mc')) = concat (take k chunks)
                           \<and> butlast (mc_messages mc') = ?B))"
      by simp_all
    obtain j t where en: "entry = (j, t)" by (cases entry) auto
    show "case foldl (stepAt e server rs a targetModels prompt) (st, tasks, log) (schedule @ [entry]) of
        (st', tasks', log') \<Rightarrow>
          length tasks' = length targetModels
          \<and> (case length (filter (\<lambda>x. fst x = i) (schedule @ [entry])) of
               0 \<Rightarrow> tasks' ! i = Requesting n \<and> conversations st' mid = Some mc
             | Suc k \<Rightarrow>
                 tasks' ! i = Streaming n (concat (take k chunks)) (drop k chunks) failure
                 \<and> (case k of
                      0 \<Rightarrow> conversations st' mid = Some mc
                    | Suc k' \<Rightarrow>
                        (\<exists>mc'. conversations st' mid = Some mc'
                           \<and> ownsTrailing mid (mc_messages mc')
                           \<and> content (last (mc_messages mc')) = concat (take k chunks)
                           \<and> butlast (mc_messages mc') = ?B)))"
    proof (cases "j = i")
      case False
      then have cnt: "length (filter (\<lambda>x. fst x = i) (schedule @ [entry])) = ?c"
        using en by simp
      show ?thesis
      proof (cases "j < length tasks1 \<and> j < length targetModels")
        case outside: False
        then have "stepAt e server rs a targetModels prompt (st1, tasks1, log1) entry
                     = (st1, tasks1, log1)"
          using en by (auto simp: stepAt_def)
        with run len1 ih show ?thesis by (simp only: foldl_append foldl.simps cnt) simp
      next
        case inside: True
        let ?model = "targetModels ! j"
        obtain t' st' evs
          where step: "taskStep e (server (model_id ?model)) rs a ?model prompt t (tasks1 ! j) st1
                         = (t', st', evs)"
          by (cases "taskStep e (server (model_id ?model)) rs a ?model prompt t (tasks1 ! j) st1") auto
        have res: "stepAt e server rs a targetModels prompt (st1, tasks1, log1) entry
                     = (st', tasks1[j := t'], log1 @ evs)"
          using inside step en by (simp add: stepAt_def)
        have "mid \<noteq> model_id ?model" using uniq inside False by auto
        from taskStep_other_window [OF step this]
        have w: "conversations st' mid = conversations st1 mid" .
        have ti: "tasks1[j := t'] ! i = tasks1 ! i" using False by simp
        from ih show ?thesis
          by ((simp only: foldl_append foldl.simps run res cnt prod.case w ti length_list_update len1), simp?)
      qed
    next
      case True
      then have cnt: "length (filter (\<lambda>x. fst x = i) (schedule @ [entry])) = Suc ?c"
        using en by simp
      with bound have cle: "?c \<le> length chunks" by simp
      have inside: "i < length tasks1 \<and> i < length targetModels" using i len1 by simp
      show ?thesis
      proof (cases ?c)
        case 0
        with ih have ti: "tasks1 ! i = Requesting n" and w: "conversations st1 mid = Some mc"
          by simp_all
        have "taskStep e (server mid) rs a (targetModels ! i) prompt t (Requesting n) st1
                = (Streaming n [] chunks failure, st1, [])"
          using resp mid by (simp add: taskStep_Requesting)
        then have res: "stepAt e server rs a targetModels prompt (st1, tasks1, log1) entry
                     = (st1, tasks1[i := Streaming n [] chunks failure], log1)"
          using inside en True ti mid by (simp add: stepAt_def)
        show ?thesis
          using inside w
          by ((simp only: foldl_append foldl.simps run res cnt prod.case 0 length_list_update len1), simp?)
      next
        case (Suc k)
        with cle have kl: "k < length chunks" by simp
        from ih Suc
        have ti: "tasks1 ! i = Streaming n (concat (take k chunks)) (drop k chunks) failure"
          by simp
        have dr: "drop k chunks = chunks ! k # drop (Suc k) chunks"
          using kl by (simp add: Cons_nth_drop_Suc)
        have tk: "concat (take (Suc k) chunks) = concat (take k chunks) @ chunks ! k"
          using kl by (simp add: take_Suc_conv_app_nth)
        let ?convs = "applyChunk t mid (concat (take (Suc k) chunks)) (conversations st1)"
        have "taskStep e (server mid) rs a (targetModels ! i) prompt t
                (Streaming n (concat (take k chunks)) (drop k chunks) failure) st1
                = (Streaming n (concat (take (Suc k) chunks)) (drop (Suc k) chunks) failure,
                   st1\<lparr>conversations := ?convs\<rparr>, [])"
          using mid by (simp add: dr taskStep_chunk tk)
        then have res: "stepAt e server rs a targetModels prompt (st1, tasks1, log1) entry
                     = (st1\<lparr>conversations := ?convs\<rparr>,
                        tasks1[i := Streaming n (concat (take (Suc k) chunks))
                                      (drop (Suc k) chunks) failure], log1)"
          using inside en True ti mid by (simp add: stepAt_def)
        have "\<exists>mc1. conversations st1 mid = Some mc1
                \<and> (if ownsTrailing mid (mc_messages mc1) then butlast (mc_messages mc1)
                    else mc_messages mc1) = ?B"
        proof (cases k)
          case 0
          with ih Suc show ?thesis by simp
        next
          case (Suc k')
          with ih \<open>?c = Suc k\<close> show ?thesis by auto
        qed
        then obtain mc1 where mc1: "conversations st1 mid = Some mc1"
          "(if ownsTrailing mid (mc_messages mc1) then butlast (mc_messages mc1)
            else mc_messages mc1) = ?B"
          by blast
        from applyChunk_Some [of "conversations st1" mid mc1 t "concat (take (Suc k) chunks)"]
             mc1
        have w: "\<exists>mc'. ?convs mid = Some mc'
                   \<and> ownsTrailing mid (mc_messages mc')
                   \<and> content (last (mc_messages mc')) = concat (take (Suc k) chunks)
                   \<and> butlast (mc_messages mc') = ?B"
          by simp
        show ?thesis
          using inside w
          by ((simp only: foldl_append foldl.simps run res cnt prod.case Suc length_list_update len1), simp?)
      qed
    qed
  qed
qed

text \<open>
  C4. The model \<open>mid\<close> is the \<open>i\<close>-th target model and has a window. One fragment: when
  its task resumes for a fragment, the fragment is added to the text of the task, and
  the window then ends in an assistant message of the model holding that text; the
  messages before it are those the window had, without the last one if that was already
  an assistant message of the model (it is replaced), all of them otherwise (one message
  is appended). The fragments of a stream, when no other target model has the id \<open>mid\<close>
  and request \<open>n\<close> of the task is answered by a stream that yields the fragments
  \<open>chunks\<close>: when the task has resumed \<open>k + 1\<close> times (for the response, then for the
  first \<open>k\<close> fragments), with \<open>k\<close> from 1 to the number of fragments, and whatever the
  tasks of the other models did meanwhile, the window ends in an assistant message of
  the model whose content is the concatenation of the first \<open>k\<close> fragments, after the
  messages the window had at the start (without the last one if it is replaced). This
  holds from any point at which request \<open>n\<close> is under way, and so of
  \<open>sendPromptToModels\<close> for the first request of the model. It holds as well of an
  attempt that runs without interruption: the attempt passes through the state after the
  first \<open>k\<close> fragments, where the window ends in that message, and leaves the window
  ending in the message of all the fragments.
\<close>

theorem streaming_trailing_message:
  assumes i: "i < length targetModels" and mid: "model_id (targetModels ! i) = mid"
    and uniq: "\<forall>j. j < length targetModels \<and> j \<noteq> i \<longrightarrow> model_id (targetModels ! j) \<noteq> mid"
    and win: "conversations st mid = Some mc"
    and resp: "sendMessage mid (server mid n) = Inr response"
              "parseStreamingResponse response = (chunks, failure)"
    and k: "0 < k" "k \<le> length chunks"
    and resumed: "length (filter (\<lambda>x. fst x = i) schedule) = k + 1"
  shows "(\<forall>st1 now1 buf chunk rest mc1. conversations st1 mid = Some mc1 \<longrightarrow>
           fst (taskStep e (server mid) rs currentActiveId (targetModels ! i) prompt now1
                  (Streaming n buf (chunk # rest) failure) st1)
             = Streaming n (buf @ chunk) rest failure
           \<and> (\<exists>mc'. conversations
                     (fst (snd (taskStep e (server mid) rs currentActiveId (targetModels ! i) prompt
                                  now1 (Streaming n buf (chunk # rest) failure) st1))) mid
                   = Some mc'
              \<and> ownsTrailing mid (mc_messages mc')
              \<and> content (last (mc_messages mc')) = buf @ chunk
              \<and> butlast (mc_messages mc') =
                  (if ownsTrailing mid (mc_messages mc1) then butlast (mc_messages mc1)
                   else mc_messages mc1)))
     \<and> (\<forall>tasks log. length tasks = length targetModels \<and> tasks ! i = Requesting n \<longrightarrow>
           (\<exists>mc'. conversations
                     (fst (foldl (stepAt e server rs currentActiveId targetModels prompt)
                             (st, tasks, log) schedule)) mid
                   = Some mc'
              \<and> ownsTrailing mid (mc_messages mc')
              \<and> content (last (mc_messages mc')) = concat (take k chunks)
              \<and> butlast (mc_messages mc') =
                  (if ownsTrailing mid (mc_messages mc) then butlast (mc_messages mc)
                   else mc_messages mc)))
     \<and> (cl_activeConversationId cl = Some currentActiveId \<and> currentActiveId \<noteq> []
          \<and> rs = (case cl_retrySettings cl of Some r \<Rightarrow> r | None \<Rightarrow> defaultRetrySettings)
          \<and> 0 \<le> maxRetries rs \<and> n = 0 \<longrightarrow>
           (\<exists>mc'. conversations
                     (fst (sendPromptToModels e server cl targetModels prompt schedule st)) mid
                   = Some mc'
              \<and> ownsTrailing mid (mc_messages mc')
              \<and> content (last (mc_messages mc')) = concat (take k chunks)
              \<and> butlast (mc_messages mc') =
                  (if ownsTrailing mid (mc_messages mc) then butlast (mc_messages mc)
                   else mc_messages mc)))
     \<and> (\<exists>mc'. conversations
                  (fst (snd (attempt e now (server mid n) rs currentActiveId (targetModels ! i)
                               prompt n st))) mid
                = Some mc'
          \<and> ownsTrailing mid (mc_messages mc')
          \<and> content (last (mc_messages mc')) = concat chunks
          \<and> butlast (mc_messages mc') =
              (if ownsTrailing mid (mc_messages mc) then butlast (mc_messages mc)
               else mc_messages mc))
     \<and> consumeChunks now mid chunks [] (conversations st) =
           consumeChunks now mid (drop k chunks) (concat (take k chunks))
             (snd (consumeChunks now mid (take k chunks) [] (conversations st)))
     \<and> (\<exists>mc'. snd (consumeChunks now mid (take k chunks) [] (conversations st)) mid = Some mc'
          \<and> ownsTrailing mid (mc_messages mc')
          \<and> content (last (mc_messages mc')) = concat (take k chunks)
          \<and> butlast (mc_messages mc') =
              (if ownsTrailing mid (mc_messages mc) then butlast (mc_messages mc)
               else mc_messages mc))"
proof (intro conjI)
  let ?B = "if ownsTrailing mid (mc_messages mc) then butlast (mc_messages mc) else mc_messages mc"
  show "\<forall>st1 now1 buf chunk rest mc1. conversations st1 mid = Some mc1 \<longrightarrow>
           fst (taskStep e (server mid) rs currentActiveId (targetModels ! i) prompt now1
                  (Streaming n buf (chunk # rest) failure) st1)
             = Streaming n (buf @ chunk) rest failure
           \<and> (\<exists>mc'. conversations
                     (fst (snd (taskStep e (server mid) rs currentActiveId (targetModels ! i) prompt
                                  now1 (Streaming n buf (chunk # rest) failure) st1))) mid
                   = Some mc'
              \<and> ownsTrailing mid (mc_messages mc')
              \<and> content (last (mc_messages mc')) = buf @ chunk
              \<and> butlast (mc_messages mc') =
                  (if ownsTrailing mid (mc_messages mc1) then butlast (mc_messages mc1)
                   else mc_messages mc1))"
  proof (intro allI impI)
    fix st1 :: app and now1 buf chunk rest mc1
    assume w: "conversations st1 mid = Some mc1"
    from applyChunk_Some [of "conversations st1" mid mc1 now1 "buf @ chunk"] w
    show "fst (taskStep e (server mid) rs currentActiveId (targetModels ! i) prompt now1
                  (Streaming n buf (chunk # rest) failure) st1)
             = Streaming n (buf @ chunk) rest failure
           \<and> (\<exists>mc'. conversations
                     (fst (snd (taskStep e (server mid) rs currentActiveId (targetModels ! i) prompt
                                  now1 (Streaming n buf (chunk # rest) failure) st1))) mid
                   = Some mc'
              \<and> ownsTrailing mid (mc_messages mc')
              \<and> content (last (mc_messages mc')) = buf @ chunk
              \<and> butlast (mc_messages mc') =
                  (if ownsTrailing mid (mc_messages mc1) then butlast (mc_messages mc1)
                   else mc_messages mc1))"
      by (simp add: taskStep_chunk mid)
  qed
  obtain k' where k': "k = Suc k'" using k(1) by (cases k) auto
  have cnt: "length (filter (\<lambda>x. fst x = i) schedule) = Suc (Suc k')" using resumed k' by simp
  have bound: "length (filter (\<lambda>x. fst x = i) schedule) \<le> length chunks + 1"
    using resumed k(2) by simp
  have run: "\<exists>mc'. conversations
                     (fst (foldl (stepAt e server rs a targetModels prompt)
                             (st, tasks, log) schedule)) mid
                   = Some mc'
              \<and> ownsTrailing mid (mc_messages mc')
              \<and> content (last (mc_messages mc')) = concat (take k chunks)
              \<and> butlast (mc_messages mc') = ?B"
    if len: "length tasks = length targetModels" and t0: "tasks ! i = Requesting n"
    for tasks log rs a
    using run_streaming [where schedule = schedule and e = e and rs = rs and a = a
         and prompt = prompt and log = log and tasks = tasks and targetModels = targetModels
         and i = i and mid = mid and st = st and mc = mc and server = server and n = n
         and response = response and chunks = chunks and failure = failure,
         OF i mid uniq len t0 win resp] bound
    by (simp only: cnt k' nat.case split: prod.splits) auto
  then show "\<forall>tasks log. length tasks = length targetModels \<and> tasks ! i = Requesting n \<longrightarrow>
           (\<exists>mc'. conversations
                     (fst (foldl (stepAt e server rs currentActiveId targetModels prompt)
                             (st, tasks, log) schedule)) mid
                   = Some mc'
              \<and> ownsTrailing mid (mc_messages mc')
              \<and> content (last (mc_messages mc')) = concat (take k chunks)
              \<and> butlast (mc_messages mc') = ?B)"
    by blast
  show "cl_activeConversationId cl = Some currentActiveId \<and> currentActiveId \<noteq> []
          \<and> rs = (case cl_retrySettings cl of Some r \<Rightarrow> r | None \<Rightarrow> defaultRetrySettings)
          \<and> 0 \<le> maxRetries rs \<and> n = 0 \<longrightarrow>
           (\<exists>mc'. conversations
                     (fst (sendPromptToModels e server cl targetModels prompt schedule st)) mid
                   = Some mc'
              \<and> ownsTrailing mid (mc_messages mc')
              \<and> content (last (mc_messages mc')) = concat (take k chunks)
              \<and> butlast (mc_messages mc') = ?B)"
  proof (intro impI, elim conjE)
    assume act: "cl_activeConversationId cl = Some currentActiveId" "currentActiveId \<noteq> []"
      and rs: "rs = (case cl_retrySettings cl of Some r \<Rightarrow> r | None \<Rightarrow> defaultRetrySettings)"
      and mr: "0 \<le> maxRetries rs" and n0: "n = 0"
    let ?tasks = "map (\<lambda>model. fst (beginAttempt e rs currentActiveId model prompt 0 st)) targetModels"
    have len: "length ?tasks = length targetModels" by simp
    have t0: "?tasks ! i = Requesting n" using i mr n0 by (simp add: beginAttempt_def)
    from run [OF len t0]
    show "\<exists>mc'. conversations
                     (fst (sendPromptToModels e server cl targetModels prompt schedule st)) mid
                   = Some mc'
              \<and> ownsTrailing mid (mc_messages mc')
              \<and> content (last (mc_messages mc')) = concat (take k chunks)
              \<and> butlast (mc_messages mc') = ?B"
      by (simp only: sendPromptToModels_conversations [OF act rs])
  qed
  have ne: "chunks \<noteq> []" using k by auto
  from consumeChunks_trailing [of "conversations st" mid mc chunks now "[]"] win ne
  obtain mc1 where mc1: "snd (consumeChunks now mid chunks [] (conversations st)) mid = Some mc1"
    "ownsTrailing mid (mc_messages mc1)" "content (last (mc_messages mc1)) = concat chunks"
    "butlast (mc_messages mc1) = ?B"
    by auto
  from attempt_window [of "targetModels ! i" "server mid n" response chunks failure now st mc1
         e rs currentActiveId prompt n] resp mc1(1) mid
  obtain mc' where "conversations
                  (fst (snd (attempt e now (server mid n) rs currentActiveId (targetModels ! i)
                               prompt n st))) mid = Some mc'"
    "mc_messages mc' = mc_messages mc1"
    by auto
  with mc1 show "\<exists>mc'. conversations
                  (fst (snd (attempt e now (server mid n) rs currentActiveId (targetModels ! i)
                               prompt n st))) mid
                = Some mc'
          \<and> ownsTrailing mid (mc_messages mc')
          \<and> content (last (mc_messages mc')) = concat chunks
          \<and> butlast (mc_messages mc') = ?B"
    by simp
  have "consumeChunks now mid (take k chunks @ drop k chunks) [] (conversations st) =
          consumeChunks now mid (drop k chunks) (concat (take k chunks))
             (snd (consumeChunks now mid (take k chunks) [] (conversations st)))"
    by (simp only: consumeChunks_append consumeChunks_fst append_Nil)
  then show "consumeChunks now mid chunks [] (conversations st) =
           consumeChunks now mid (drop k chunks) (concat (take k chunks))
             (snd (consumeChunks now mid (take k chunks) [] (conversations st)))"
    by simp
  have "take k chunks \<noteq> []" using k by (cases chunks) auto
  with win consumeChunks_trailing [of "conversations st" mid mc "take k chunks" now "[]"]
  show "\<exists>mc'. snd (consumeChunks now mid (take k chunks) [] (conversations st)) mid = Some mc'
          \<and> ownsTrailing mid (mc_messages mc')
          \<and> content (last (mc_messages mc')) = concat (take k chunks)
          \<and> butlast (mc_messages mc') = ?B"
    by simp
qed

text \<open>
The theorem for two models that take turns and three fragments, after the second.
\<close>

theorem streaming_trailing_message_witness:
  "model_id ([ex_model, ex_other] ! 0) = ''m''
   \<and> conversations ex_state ''m'' = Some ex_window
   \<and> parseStreamingResponse \<lparr>ok = True, status = 200, errorBody = NoMessage,
        body = Body [Delta (Some ''He''), Delta (Some ''l''), Delta (Some ''lo'')] None\<rparr>
       = ([''He'', ''l'', ''lo''], None)
   \<and> length (filter (\<lambda>x. fst x = 0) ex_interleaved) = 2 + 1
   \<and> cl_activeConversationId (closure_of ex_state) = Some ''c1''
   \<and> 0 \<le> maxRetries defaultRetrySettings
   \<and> (\<exists>mc'. conversations
                (fst (sendPromptToModels ex_env ex_streams (closure_of ex_state)
                        [ex_model, ex_other] ex_again ex_interleaved ex_state)) ''m''
              = Some mc'
          \<and> ownsTrailing ''m'' (mc_messages mc')
          \<and> content (last (mc_messages mc')) = ''Hel''
          \<and> butlast (mc_messages mc') = [ex_hi])"
proof -
  let ?response = "\<lparr>ok = True, status = 200, errorBody = NoMessage,
        body = Body [Delta (Some ''He''), Delta (Some ''l''), Delta (Some ''lo'')] None\<rparr>"
  have h1: "cl_activeConversationId (closure_of ex_state) = Some ''c1''"
    by (simp add: closure_of_def ex_state_def)
  have h2: "''c1'' \<noteq> []" by simp
  have h3: "defaultRetrySettings =
     (case cl_retrySettings (closure_of ex_state) of Some r \<Rightarrow> r | None \<Rightarrow> defaultRetrySettings)"
    by (simp add: closure_of_def ex_state_def)
  have h4: "0 \<le> maxRetries defaultRetrySettings" by (simp add: defaultRetrySettings_def)
  have h5: "0 < length [ex_model, ex_other]" by simp
  have h6: "model_id ([ex_model, ex_other] ! 0) = ''m''" by (simp add: ex_model_def)
  have h7: "\<forall>j. j < length [ex_model, ex_other] \<and> j \<noteq> 0
              \<longrightarrow> model_id ([ex_model, ex_other] ! j) \<noteq> ''m''"
    by (auto simp: ex_other_def less_Suc_eq)
  have h8: "conversations ex_state ''m'' = Some ex_window" by (simp add: ex_state_def)
  have h9: "sendMessage ''m'' (ex_streams ''m'' 0) = Inr ?response"
    by (simp add: sendMessage_def ex_streams_def)
  have h10: "parseStreamingResponse ?response = ([''He'', ''l'', ''lo''], None)"
    by (simp add: parseStreamingResponse_def)
  have h11: "(0::nat) < 2" "(2::nat) \<le> length [''He'', ''l'', ''lo'']" by simp_all
  have h12: "length (filter (\<lambda>x. fst x = 0) ex_interleaved) = 2 + 1"
    by (simp add: ex_interleaved_def)
  have b: "(if ownsTrailing ''m'' (mc_messages ex_window) then butlast (mc_messages ex_window)
            else mc_messages ex_window) = [ex_hi]"
    by (simp add: ex_window_def ex_hi_def ownsTrailing_def)
  have c: "concat (take 2 [''He'', ''l'', ''lo'']) = ''Hel''" by simp
  note th = streaming_trailing_message [where cl = "closure_of ex_state"
         and currentActiveId = "''c1''"
         and rs = defaultRetrySettings and i = 0 and targetModels = "[ex_model, ex_other]"
         and mid = "''m''" and st = ex_state and mc = ex_window and server = ex_streams
         and n = 0 and response = ?response and chunks = "[''He'', ''l'', ''lo'']"
         and failure = None and k = 2 and schedule = ex_interleaved and e = ex_env
         and prompt = ex_again,
         OF h5 h6 h7 h8 h9 h10 h11 h12]
  from th [THEN conjunct2, THEN conjunct2, THEN conjunct1] h1 h2 h3 h4
  have "\<exists>mc'. conversations
                (fst (sendPromptToModels ex_env ex_streams (closure_of ex_state)
                        [ex_model, ex_other] ex_again ex_interleaved ex_state)) ''m''
              = Some mc'
          \<and> ownsTrailing ''m'' (mc_messages mc')
          \<and> content (last (mc_messages mc')) = ''Hel''
          \<and> butlast (mc_messages mc') = [ex_hi]"
    unfolding b c by blast
  with h1 h4 h6 h8 h10 h12 show ?thesis by (intro conjI)
qed

subsection \<open>Clearing a window\<close>

text \<open>
  C8, as the claim states it, fails. In the example state the conversation \<open>c1\<close> is
  stored with the user message \<open>hi\<close>; after \<open>clearConversation\<close> for the model \<open>m\<close> the
  conversation is still stored with that message, its projection on \<open>m\<close> is that
  message, and the window of \<open>m\<close> is empty.
\<close>

theorem clearConversation_counterexample:
  "getConversation ex_env (storage (clearConversation ''m'' ex_state)) ''c1'' = Some ex_conversation
   \<and> modelMessages ex_conversation ''m'' = [ex_hi]
   \<and> map_option mc_messages (conversations (clearConversation ''m'' ex_state) ''m'') = Some []"
  by (simp add: clearConversation_def modelMessages_def svc_defs ex_defs)

text \<open>
  C8, amended. \<open>clearConversation\<close> for a model empties the window of that model and
  clears its error; the windows of the other models, the storage and the active
  conversation are left as they were.
\<close>

theorem clearConversation_clears_one_window:
  "(\<exists>mc'. conversations (clearConversation mid st) mid = Some mc'
       \<and> mc_messages mc' = [] \<and> mc_error mc' = None)
   \<and> (\<forall>k. k \<noteq> mid \<longrightarrow> conversations (clearConversation mid st) k = conversations st k)
   \<and> storage (clearConversation mid st) = storage st
   \<and> activeConversationId (clearConversation mid st) = activeConversationId st"
  by (simp add: clearConversation_def split: option.split)

text \<open>
The theorem at the example state: another model's window is untouched.
\<close>

theorem clearConversation_clears_one_window_witness:
  "(\<exists>mc'. conversations (clearConversation ''m'' ex_state) ''m'' = Some mc'
       \<and> mc_messages mc' = [] \<and> mc_error mc' = None)
   \<and> conversations (clearConversation ''m'' ex_state) ''n'' = conversations ex_state ''n''
   \<and> storage (clearConversation ''m'' ex_state) = storage ex_state"
  using clearConversation_clears_one_window [of "''m''" ex_state]
  by simp

subsection \<open>The retry loop\<close>

lemma attempt_sends: "sends (snd (snd (attempt e now outcome rs a model prompt n st))) = 1"
  by (auto simp: attempt_def sends_def Let_def split: sum.splits prod.splits option.splits dest: onError_eventsD)

lemma attempt_ContinueD:
  "attempt e now outcome rs a model prompt n st = (Continue, st', evs) \<Longrightarrow> enabled rs \<and> int n < maxRetries rs"
  by (auto simp add: attempt_def Let_def split: sum.splits prod.splits option.splits dest: onError_ContinueD)

lemma modelTask_cases:
  assumes stop: "\<And>n st log. \<not> int n \<le> maxRetries rs \<Longrightarrow> P n st log (st, log)"
    and brk: "\<And>n st log st' evs. int n \<le> maxRetries rs \<Longrightarrow>
               attempt e (clock n) (server n) rs a model prompt n st = (Break, st', evs) \<Longrightarrow>
               P n st log (st', log @ evs)"
    and cont: "\<And>n st log st' evs. int n < maxRetries rs \<Longrightarrow>
               attempt e (clock n) (server n) rs a model prompt n st = (Continue, st', evs) \<Longrightarrow>
               P (n + 1) st' (log @ evs)
                 (modelTask e clock server rs a model prompt (n + 1) (st', log @ evs)) \<Longrightarrow>
               P n st log (modelTask e clock server rs a model prompt (n + 1) (st', log @ evs))"
  shows "P n st log (modelTask e clock server rs a model prompt n (st, log))"
proof (induction k \<equiv> "nat (maxRetries rs + 1 - int n)" arbitrary: n st log)
  case 0
  then have "\<not> int n \<le> maxRetries rs" by simp
  then show ?case using stop [of n st log] by (simp add: modelTask.simps)
next
  case (Suc k)
  then have le: "int n \<le> maxRetries rs" by simp
  obtain c st' evs where att: "attempt e (clock n) (server n) rs a model prompt n st = (c, st', evs)"
    by (cases "attempt e (clock n) (server n) rs a model prompt n st") auto
  show ?case
  proof (cases c)
    case Break
    with le att brk [of n st st' evs log] show ?thesis
      by (simp add: modelTask.simps [of e clock server rs a model prompt n])
  next
    case Continue
    with att attempt_ContinueD have lt: "int n < maxRetries rs" by blast
    have "k = nat (maxRetries rs + 1 - int (n + 1))" using Suc.hyps(2) by simp
    from Suc.hyps(1) [OF this]
    have "P (n + 1) st' (log @ evs)
            (modelTask e clock server rs a model prompt (n + 1) (st', log @ evs))" .
    with cont [of n st st' evs log] lt att Continue le show ?thesis
      by (simp add: modelTask.simps [of e clock server rs a model prompt n])
  qed
qed

lemma modelTask_log:
  "snd (modelTask e clock server rs a model prompt n (st, log)) =
     log @ snd (modelTask e clock server rs a model prompt n (st, []))"
proof (induction k \<equiv> "nat (maxRetries rs + 1 - int n)" arbitrary: n st log)
  case 0
  then have "\<not> int n \<le> maxRetries rs" by simp
  then show ?case by (simp add: modelTask.simps [of e clock server rs a model prompt n])
next
  case (Suc k)
  then have le: "int n \<le> maxRetries rs" by simp
  obtain c st' evs where att: "attempt e (clock n) (server n) rs a model prompt n st = (c, st', evs)"
    by (cases "attempt e (clock n) (server n) rs a model prompt n st") auto
  show ?case
  proof (cases c)
    case Break
    with le att show ?thesis
      by (simp add: modelTask.simps [of e clock server rs a model prompt n])
  next
    case Continue
    have k: "k = nat (maxRetries rs + 1 - int (n + 1))" using Suc.hyps(2) by simp
    have 1: "snd (modelTask e clock server rs a model prompt (n + 1) (st', log @ evs)) =
          (log @ evs) @ snd (modelTask e clock server rs a model prompt (n + 1) (st', []))"
      by (rule Suc.hyps(1) [OF k])
    have 2: "snd (modelTask e clock server rs a model prompt (n + 1) (st', evs)) =
          evs @ snd (modelTask e clock server rs a model prompt (n + 1) (st', []))"
      by (rule Suc.hyps(1) [OF k])
    have 3: "modelTask e clock server rs a model prompt n (st, log) =
             modelTask e clock server rs a model prompt (n + 1) (st', log @ evs)"
      using le att Continue by (simp add: modelTask.simps [of e clock server rs a model prompt n])
    have 4: "modelTask e clock server rs a model prompt n (st, []) =
             modelTask e clock server rs a model prompt (n + 1) (st', evs)"
      using le att Continue by (simp add: modelTask.simps [of e clock server rs a model prompt n])
    show ?thesis by (simp only: 1 2 3 4 append_assoc)
  qed
qed

lemma modelTask_sends:
  assumes "int n \<le> maxRetries rs"
  shows "sends log < sends (snd (modelTask e clock server rs a model prompt n (st, log)))
       \<and> int (sends (snd (modelTask e clock server rs a model prompt n (st, log))))
           \<le> int (sends log) + (maxRetries rs - int n + 1)"
proof -
  have "int n \<le> maxRetries rs \<longrightarrow>
       sends log < sends (snd (modelTask e clock server rs a model prompt n (st, log)))
       \<and> int (sends (snd (modelTask e clock server rs a model prompt n (st, log))))
           \<le> int (sends log) + (maxRetries rs - int n + 1)"
  proof (rule modelTask_cases
        [where P = "\<lambda>n st log r. int n \<le> maxRetries rs \<longrightarrow> sends log < sends (snd r)
           \<and> int (sends (snd r)) \<le> int (sends log) + (maxRetries rs - int n + 1)"], goal_cases)
    case (1 n st log)
    then show ?case by simp
  next
    case (2 n st log st' evs)
    with attempt_sends [of e "clock n" "server n" rs a model prompt n st]
    show ?case by (simp add: sends_def)
  next
    case (3 n st log st' evs)
    with attempt_sends [of e "clock n" "server n" rs a model prompt n st]
    show ?case by (simp add: sends_def)
  qed
  with assms show ?thesis by simp
qed

lemma modelTask_single_attempt:
  assumes "int n \<le> maxRetries rs" and "\<not> enabled rs \<or> maxRetries rs = int n"
  shows "sends (snd (modelTask e clock server rs a model prompt n (st, log))) = sends log + 1"
proof -
  obtain c st' evs where att: "attempt e (clock n) (server n) rs a model prompt n st = (c, st', evs)"
    by (cases "attempt e (clock n) (server n) rs a model prompt n st") auto
  with assms(2) attempt_ContinueD have "c = Break" by (cases c) fastforce+
  with att assms(1) attempt_sends [of e "clock n" "server n" rs a model prompt n st]
  show ?thesis by (simp add: modelTask.simps [of e clock server rs a model prompt n] sends_def)
qed

text \<open>
  The task that runs alone is a run of the dispatch: the steps of an attempt, taken one
  after the other at the time of the attempt, give what \<open>attempt\<close> gives, and a
  dispatch to a single model, resumed until its task is finished, gives what \<open>modelTask\<close>
  gives.
\<close>

lemma chunk_steps:
  "foldl (stepAt e server rs a [model] prompt) (st, [Streaming n buf chunks failure], log)
     (replicate (length chunks) (0, now)) =
   (st\<lparr>conversations := snd (consumeChunks now (model_id model) chunks buf (conversations st))\<rparr>,
    [Streaming n (buf @ concat chunks) [] failure], log)"
proof (induction chunks arbitrary: buf st)
  case Nil
  show ?case by simp
next
  case (Cons chunk rest)
  show ?case by (simp add: stepAt_single taskStep_chunk Cons.IH)
qed

lemma attempt_is_steps:
  assumes att: "attempt e now (server (model_id model) n) rs a model prompt n st = (c, st', evs)"
  shows "\<exists>schedule.
           foldl (stepAt e server rs a [model] prompt)
             (st, [Requesting n],
              log @ [Sent (model_id model) (apiMessages e (storage st) a model prompt)]) schedule =
           (st', [case c of Break \<Rightarrow> Finished | Continue \<Rightarrow> Requesting (n + 1)],
            log @ evs @ (case c of Break \<Rightarrow> []
                         | Continue \<Rightarrow> [Sent (model_id model)
                                          (apiMessages e (storage st') a model prompt)]))"
proof -
  let ?mid = "model_id model"
  let ?sent = "Sent ?mid (apiMessages e (storage st) a model prompt)"
  let ?f = "stepAt e server rs a [model] prompt"
  have after: "\<exists>schedule.
           foldl ?f (st1, [t1], log @ [?sent]) schedule =
           (st', [case c of Break \<Rightarrow> Finished | Continue \<Rightarrow> Requesting (n + 1)],
            log @ evs @ (case c of Break \<Rightarrow> []
                         | Continue \<Rightarrow> [Sent ?mid (apiMessages e (storage st') a model prompt)]))"
    if step: "taskStep e (server ?mid) rs a model prompt now t1 st1
                = afterError e rs a model prompt n err st1"
      and oe: "onError rs model prompt n err st1 = (c, st', evs')" and evs: "evs = ?sent # evs'"
    for st1 t1 err evs'
  proof (cases c)
    case Break
    with oe step evs have "?f (st1, [t1], log @ [?sent]) (0, now) = (st', [Finished], log @ evs)"
      by (simp add: stepAt_single afterError_def)
    then have "foldl ?f (st1, [t1], log @ [?sent]) [(0, now)] = (st', [Finished], log @ evs)"
      by simp
    with Break show ?thesis by (auto simp del: foldl_Cons)
  next
    case Continue
    with oe onError_ContinueD have lt: "int n < maxRetries rs" by blast
    then have b: "beginAttempt e rs a model prompt (n + 1) st' =
                    (Requesting (n + 1), [Sent ?mid (apiMessages e (storage st') a model prompt)])"
      by (simp add: beginAttempt_def)
    show ?thesis
    proof (cases "0 < getRetryDelay rs n")
      case True
      with oe step evs Continue
      have 1: "?f (st1, [t1], log @ [?sent]) (0, now) = (st', [Waiting (n + 1)], log @ evs)"
        by (simp add: stepAt_single afterError_def)
      have 2: "?f (st', [Waiting (n + 1)], log @ evs) (0, now) =
                 (st', [Requesting (n + 1)],
                  log @ evs @ [Sent ?mid (apiMessages e (storage st') a model prompt)])"
        using b by (simp add: stepAt_single taskStep_Waiting)
      have "foldl ?f (st1, [t1], log @ [?sent]) [(0, now), (0, now)] =
              (st', [Requesting (n + 1)],
               log @ evs @ [Sent ?mid (apiMessages e (storage st') a model prompt)])"
        by (simp only: foldl_Cons foldl_Nil 1 2)
      with Continue show ?thesis by (auto simp del: foldl_Cons)
    next
      case False
      with oe step evs Continue b
      have "?f (st1, [t1], log @ [?sent]) (0, now) =
              (st', [Requesting (n + 1)],
               log @ evs @ [Sent ?mid (apiMessages e (storage st') a model prompt)])"
        by (simp add: stepAt_single afterError_def)
      then have "foldl ?f (st1, [t1], log @ [?sent]) [(0, now)] =
              (st', [Requesting (n + 1)],
               log @ evs @ [Sent ?mid (apiMessages e (storage st') a model prompt)])"
        by simp
      with Continue show ?thesis by (auto simp del: foldl_Cons)
    qed
  qed
  show ?thesis
  proof (cases "sendMessage ?mid (server ?mid n)")
    case (Inl err)
    obtain c1 st1 evs1 where oe: "onError rs model prompt n err st = (c1, st1, evs1)"
      by (cases "onError rs model prompt n err st") auto
    with att Inl have eq: "c1 = c" "st1 = st'" "evs = ?sent # evs1"
      by (simp_all add: attempt_def Let_def)
    have step: "taskStep e (server ?mid) rs a model prompt now (Requesting n) st
                  = afterError e rs a model prompt n err st"
      using Inl by (simp add: taskStep_Requesting)
    from after [OF step, of evs1] oe eq show ?thesis by simp
  next
    case (Inr response)
    obtain chunks failure where p: "parseStreamingResponse response = (chunks, failure)"
      by (cases "parseStreamingResponse response") auto
    obtain buf convs' where cc: "consumeChunks now ?mid chunks [] (conversations st) = (buf, convs')"
      by (cases "consumeChunks now ?mid chunks [] (conversations st)") auto
    have buf: "buf = concat chunks" using consumeChunks_fst [of now ?mid chunks "[]" "conversations st"] cc
      by simp
    let ?st1 = "st\<lparr>conversations := convs'\<rparr>"
    have 1: "?f (st, [Requesting n], log @ [?sent]) (0, now) =
               (st, [Streaming n [] chunks failure], log @ [?sent])"
      using Inr p by (simp add: stepAt_single taskStep_Requesting)
    have 2: "foldl ?f (st, [Streaming n [] chunks failure], log @ [?sent])
               (replicate (length chunks) (0, now)) =
             (?st1, [Streaming n buf [] failure], log @ [?sent])"
      using chunk_steps [of e server rs a model prompt st n "[]" chunks failure "log @ [?sent]" now]
            cc buf
      by simp
    have pre: "foldl ?f (st, [Requesting n], log @ [?sent])
                 ((0, now) # replicate (length chunks) (0, now)) =
               (?st1, [Streaming n buf [] failure], log @ [?sent])"
      by (simp only: foldl_Cons 1 2)
    show ?thesis
    proof (cases failure)
      case None
      let ?st2 = "if buf \<noteq> [] \<and> a \<noteq> []
                  then ?st1\<lparr>storage := addMessageToConversation e now a
                         \<lparr>role = Assistant, content = buf, timestamp = now,
                          modelId = Some ?mid\<rparr> (storage ?st1)\<rparr>
                  else ?st1"
      from att Inr p cc None have eq: "c = Break" "st' = ?st2" "evs = [?sent]"
        by (simp_all add: attempt_def Let_def)
      have 3: "?f (?st1, [Streaming n buf [] failure], log @ [?sent]) (0, now) =
                 (?st2, [Finished], log @ [?sent])"
        using None by (simp add: stepAt_single taskStep_end)
      have "foldl ?f (st, [Requesting n], log @ [?sent])
              (((0, now) # replicate (length chunks) (0, now)) @ [(0, now)]) =
            (?st2, [Finished], log @ [?sent])"
        by (simp only: foldl_snoc pre 3)
      with eq show ?thesis by (auto simp del: foldl_Cons foldl_append)
    next
      case (Some err)
      obtain c1 st1 evs1 where oe: "onError rs model prompt n err ?st1 = (c1, st1, evs1)"
        by (cases "onError rs model prompt n err ?st1") auto
      with att Inr p cc Some have eq: "c1 = c" "st1 = st'" "evs = ?sent # evs1"
        by (simp_all add: attempt_def Let_def)
      have step: "taskStep e (server ?mid) rs a model prompt now (Streaming n buf [] failure) ?st1
                  = afterError e rs a model prompt n err ?st1"
        using Some by (simp add: taskStep_end)
      from after [OF step, of evs1] oe eq
      obtain sch where sch: "foldl ?f (?st1, [Streaming n buf [] failure], log @ [?sent]) sch =
           (st', [case c of Break \<Rightarrow> Finished | Continue \<Rightarrow> Requesting (n + 1)],
            log @ evs @ (case c of Break \<Rightarrow> []
                         | Continue \<Rightarrow> [Sent ?mid (apiMessages e (storage st') a model prompt)]))"
        by auto
      have "foldl ?f (st, [Requesting n], log @ [?sent])
              (((0, now) # replicate (length chunks) (0, now)) @ sch) =
           (st', [case c of Break \<Rightarrow> Finished | Continue \<Rightarrow> Requesting (n + 1)],
            log @ evs @ (case c of Break \<Rightarrow> []
                         | Continue \<Rightarrow> [Sent ?mid (apiMessages e (storage st') a model prompt)]))"
        by (simp only: foldl_append pre sch)
      then show ?thesis by blast
    qed
  qed
qed

lemma modelTask_is_a_run:
  assumes "int n \<le> maxRetries rs"
  shows "\<exists>schedule.
           foldl (stepAt e server rs a [model] prompt)
             (st, [Requesting n],
              log @ [Sent (model_id model) (apiMessages e (storage st) a model prompt)]) schedule =
           (fst (modelTask e clock (server (model_id model)) rs a model prompt n (st, log)),
            [Finished],
            snd (modelTask e clock (server (model_id model)) rs a model prompt n (st, log)))"
  using assms
proof (induction k \<equiv> "nat (maxRetries rs + 1 - int n)" arbitrary: n st log)
  case 0
  then show ?case by simp
next
  case (Suc k)
  let ?mid = "model_id model"
  let ?f = "stepAt e server rs a [model] prompt"
  have le: "int n \<le> maxRetries rs" using Suc.prems .
  obtain c st' evs
    where att: "attempt e (clock n) (server ?mid n) rs a model prompt n st = (c, st', evs)"
    by (cases "attempt e (clock n) (server ?mid n) rs a model prompt n st") auto
  from attempt_is_steps [where server = server and log = log and now = "clock n", OF att]
  obtain sch1 where sch1:
    "foldl ?f (st, [Requesting n], log @ [Sent ?mid (apiMessages e (storage st) a model prompt)]) sch1 =
       (st', [case c of Break \<Rightarrow> Finished | Continue \<Rightarrow> Requesting (n + 1)],
        log @ evs @ (case c of Break \<Rightarrow> []
                     | Continue \<Rightarrow> [Sent ?mid (apiMessages e (storage st') a model prompt)]))"
    by blast
  show ?case
  proof (cases c)
    case Break
    with le att have "modelTask e clock (server ?mid) rs a model prompt n (st, log) = (st', log @ evs)"
      by (simp add: modelTask.simps [of e clock "server ?mid" rs a model prompt n])
    with sch1 Break show ?thesis by auto
  next
    case Continue
    with att attempt_ContinueD have lt: "int n < maxRetries rs" by blast
    then have le': "int (n + 1) \<le> maxRetries rs" by simp
    have k: "k = nat (maxRetries rs + 1 - int (n + 1))" using Suc.hyps(2) by simp
    from Suc.hyps(1) [OF k le', of st' "log @ evs"]
    obtain sch2 where sch2:
      "foldl ?f (st', [Requesting (n + 1)],
                 (log @ evs) @ [Sent ?mid (apiMessages e (storage st') a model prompt)]) sch2 =
         (fst (modelTask e clock (server ?mid) rs a model prompt (n + 1) (st', log @ evs)),
          [Finished],
          snd (modelTask e clock (server ?mid) rs a model prompt (n + 1) (st', log @ evs)))"
      by blast
    have mt: "modelTask e clock (server ?mid) rs a model prompt n (st, log) =
              modelTask e clock (server ?mid) rs a model prompt (n + 1) (st', log @ evs)"
      using le att Continue by (simp add: modelTask.simps [of e clock "server ?mid" rs a model prompt n])
    have "foldl ?f (st, [Requesting n],
                    log @ [Sent ?mid (apiMessages e (storage st) a model prompt)]) (sch1 @ sch2) =
          (fst (modelTask e clock (server ?mid) rs a model prompt n (st, log)),
           [Finished],
           snd (modelTask e clock (server ?mid) rs a model prompt n (st, log)))"
      using sch1 sch2 Continue by (simp only: foldl_append mt control.case append_assoc)
    then show ?thesis by blast
  qed
qed

lemma modelTask_dispatch:
  assumes act: "cl_activeConversationId cl = Some a" "a \<noteq> []"
    and rs: "rs = (case cl_retrySettings cl of Some r \<Rightarrow> r | None \<Rightarrow> defaultRetrySettings)"
    and mr: "0 \<le> maxRetries rs"
  shows "\<exists>schedule.
           sendPromptToModels e server cl [model] prompt schedule st =
             (case modelTask e clock (server (model_id model)) rs a model prompt 0 (st, []) of
                (st', log) \<Rightarrow> (st'\<lparr>allConversations := getAllConversations e (storage st')\<rparr>, log))"
proof -
  have le: "int 0 \<le> maxRetries rs" using mr by simp
  from modelTask_is_a_run [OF le, of e server a model prompt st "[]" clock]
  obtain schedule where
    "foldl (stepAt e server rs a [model] prompt)
       (st, [Requesting 0], [Sent (model_id model) (apiMessages e (storage st) a model prompt)])
       schedule =
     (fst (modelTask e clock (server (model_id model)) rs a model prompt 0 (st, [])),
      [Finished],
      snd (modelTask e clock (server (model_id model)) rs a model prompt 0 (st, [])))"
    by auto
  then have "sendPromptToModels e server cl [model] prompt schedule st =
             (case modelTask e clock (server (model_id model)) rs a model prompt 0 (st, []) of
                (st', log) \<Rightarrow> (st'\<lparr>allConversations := getAllConversations e (storage st')\<rparr>, log))"
    using act rs mr by (simp add: sendPromptToModels_def beginAttempt_def split: prod.split)
  then show ?thesis by blast
qed

text \<open>
  The requests of a dispatch to a single model: each attempt sends one, and the number of
  the attempt never exceeds \<open>maxRetries\<close>.
\<close>

lemma taskStep_requests:
  assumes step: "taskStep e server rs a model prompt now t st = (t', st', evs)"
    and inv: "1 \<le> s \<and> int s \<le> maxRetries rs + 1
        \<and> (case t of Requesting n \<Rightarrow> s = n + 1 | Streaming n b c f \<Rightarrow> s = n + 1
             | Waiting n \<Rightarrow> s = n | Finished \<Rightarrow> True)"
  shows "1 \<le> s + sends evs \<and> int (s + sends evs) \<le> maxRetries rs + 1
        \<and> (case t' of Requesting n \<Rightarrow> s + sends evs = n + 1
             | Streaming n b c f \<Rightarrow> s + sends evs = n + 1
             | Waiting n \<Rightarrow> s + sends evs = n | Finished \<Rightarrow> True)"
proof (cases t)
  case (Requesting n)
  show ?thesis
  proof (cases "sendMessage (model_id model) (server n)")
    case (Inl err)
    with step Requesting have "afterError e rs a model prompt n err st = (t', st', evs)"
      by (simp add: taskStep_Requesting)
    from afterError_cases [OF this] inv Requesting show ?thesis
      by (auto simp: sends_simps)
  next
    case (Inr response)
    with step Requesting inv show ?thesis by (auto simp: taskStep_Requesting sends_simps)
  qed
next
  case (Streaming n buf chunks failure)
  show ?thesis
  proof (cases chunks)
    case (Cons chunk rest)
    with step Streaming inv show ?thesis by (auto simp: taskStep_chunk sends_simps)
  next
    case Nil
    show ?thesis
    proof (cases failure)
      case None
      with step Streaming Nil inv show ?thesis by (auto simp: taskStep_end sends_simps)
    next
      case (Some err)
      with step Streaming Nil have "afterError e rs a model prompt n err st = (t', st', evs)"
        by (simp add: taskStep_end)
      from afterError_cases [OF this] inv Streaming show ?thesis
        by (auto simp: sends_simps)
    qed
  qed
next
  case (Waiting n)
  with step inv show ?thesis
    by (auto simp: taskStep_Waiting beginAttempt_def sends_simps split: if_splits)
next
  case Finished
  with step inv show ?thesis by (auto simp: taskStep_Finished sends_simps)
qed

lemma taskStep_single_request:
  assumes step: "taskStep e server rs a model prompt now t st = (t', st', evs)"
    and once: "\<not> enabled rs \<or> maxRetries rs = 0"
    and inv: "case t of Waiting n \<Rightarrow> False | _ \<Rightarrow> True"
  shows "sends evs = 0 \<and> (case t' of Waiting n \<Rightarrow> False | _ \<Rightarrow> True)"
proof (cases t)
  case (Requesting n)
  show ?thesis
  proof (cases "sendMessage (model_id model) (server n)")
    case (Inl err)
    with step Requesting have "afterError e rs a model prompt n err st = (t', st', evs)"
      by (simp add: taskStep_Requesting)
    from afterError_cases [OF this] once show ?thesis
      by (auto simp: sends_simps)
  next
    case (Inr response)
    with step Requesting show ?thesis by (auto simp: taskStep_Requesting sends_simps)
  qed
next
  case (Streaming n buf chunks failure)
  show ?thesis
  proof (cases chunks)
    case (Cons chunk rest)
    with step Streaming show ?thesis by (auto simp: taskStep_chunk sends_simps)
  next
    case Nil
    show ?thesis
    proof (cases failure)
      case None
      with step Streaming Nil show ?thesis by (auto simp: taskStep_end sends_simps)
    next
      case (Some err)
      with step Streaming Nil have "afterError e rs a model prompt n err st = (t', st', evs)"
        by (simp add: taskStep_end)
      from afterError_cases [OF this] once show ?thesis
        by (auto simp: sends_simps)
    qed
  qed
next
  case (Waiting n)
  with inv show ?thesis by simp
next
  case Finished
  with step show ?thesis by (auto simp: taskStep_Finished sends_simps)
qed

lemma run_single_requests:
  assumes "1 \<le> sends log \<and> int (sends log) \<le> maxRetries rs + 1
        \<and> (case t of Requesting n \<Rightarrow> sends log = n + 1 | Streaming n b c f \<Rightarrow> sends log = n + 1
             | Waiting n \<Rightarrow> sends log = n | Finished \<Rightarrow> True)"
  shows "1 \<le> sends (snd (snd (foldl (stepAt e server rs a [model] prompt) (st, [t], log) schedule)))
       \<and> int (sends (snd (snd (foldl (stepAt e server rs a [model] prompt) (st, [t], log) schedule))))
           \<le> maxRetries rs + 1"
proof -
  let ?P = "\<lambda>x. case x of (st', tasks', log') \<Rightarrow>
     \<exists>t'. tasks' = [t'] \<and> 1 \<le> sends log' \<and> int (sends log') \<le> maxRetries rs + 1
        \<and> (case t' of Requesting n \<Rightarrow> sends log' = n + 1 | Streaming n b c f \<Rightarrow> sends log' = n + 1
             | Waiting n \<Rightarrow> sends log' = n | Finished \<Rightarrow> True)"
  have "?P (foldl (stepAt e server rs a [model] prompt) (st, [t], log) schedule)"
  proof (rule foldl_invariant [where P = ?P])
    show "?P (st, [t], log)" using assms by simp
  next
    fix x :: "app \<times> task list \<times> event list" and entry :: "nat \<times> int"
    assume px: "?P x"
    obtain st1 tasks1 log1 where x: "x = (st1, tasks1, log1)" by (cases x) auto
    obtain i now where en: "entry = (i, now)" by (cases entry) auto
    from px x obtain t1 where t1: "tasks1 = [t1]"
      and inv: "1 \<le> sends log1 \<and> int (sends log1) \<le> maxRetries rs + 1
        \<and> (case t1 of Requesting n \<Rightarrow> sends log1 = n + 1 | Streaming n b c f \<Rightarrow> sends log1 = n + 1
             | Waiting n \<Rightarrow> sends log1 = n | Finished \<Rightarrow> True)"
      by auto
    show "?P (stepAt e server rs a [model] prompt x entry)"
    proof (cases "i = 0")
      case False
      with px x t1 en show ?thesis by (simp add: stepAt_single)
    next
      case True
      obtain t' st' evs
        where step: "taskStep e (server (model_id model)) rs a model prompt now t1 st1 = (t', st', evs)"
        by (cases "taskStep e (server (model_id model)) rs a model prompt now t1 st1") auto
      from taskStep_requests [OF step inv] step True x t1 en show ?thesis
        by (simp add: stepAt_single sends_simps split: task.splits)
    qed
  qed
  then show ?thesis by (auto split: prod.splits)
qed

lemma run_single_once:
  assumes once: "\<not> enabled rs \<or> maxRetries rs = 0"
    and inv: "case t of Waiting n \<Rightarrow> False | _ \<Rightarrow> True"
  shows "sends (snd (snd (foldl (stepAt e server rs a [model] prompt) (st, [t], log) schedule)))
           = sends log"
proof -
  let ?P = "\<lambda>x. case x of (st', tasks', log') \<Rightarrow>
     \<exists>t'. tasks' = [t'] \<and> sends log' = sends log \<and> (case t' of Waiting n \<Rightarrow> False | _ \<Rightarrow> True)"
  have "?P (foldl (stepAt e server rs a [model] prompt) (st, [t], log) schedule)"
  proof (rule foldl_invariant [where P = ?P])
    show "?P (st, [t], log)" using inv by simp
  next
    fix x :: "app \<times> task list \<times> event list" and entry :: "nat \<times> int"
    assume px: "?P x"
    obtain st1 tasks1 log1 where x: "x = (st1, tasks1, log1)" by (cases x) auto
    obtain i now where en: "entry = (i, now)" by (cases entry) auto
    from px x obtain t1 where t1: "tasks1 = [t1]" "sends log1 = sends log"
      and inv1: "case t1 of Waiting n \<Rightarrow> False | _ \<Rightarrow> True"
      by auto
    show "?P (stepAt e server rs a [model] prompt x entry)"
    proof (cases "i = 0")
      case False
      with px x t1 en show ?thesis by (simp add: stepAt_single)
    next
      case True
      obtain t' st' evs
        where step: "taskStep e (server (model_id model)) rs a model prompt now t1 st1 = (t', st', evs)"
        by (cases "taskStep e (server (model_id model)) rs a model prompt now t1 st1") auto
      from taskStep_single_request [OF step once inv1] step True x t1 en show ?thesis
        by (simp add: stepAt_single sends_simps split: task.splits)
    qed
  qed
  then show ?thesis by (auto split: prod.splits)
qed

lemma find_model_id: "find (\<lambda>m. model_id m = mid) ms = Some model \<Longrightarrow> model_id model = mid"
  by (induction ms) (auto split: if_splits)

text \<open>
  C1, amended. For an enabled model whose window records a failed prompt, with an active
  conversation in the closure and a retry bound that is not negative. Before anything
  is awaited, \<open>retryFailedModel\<close> has reset the window (loading, no error, \<open>canRetry\<close>
  false, \<open>retryCount\<close> 0) and sent the first request for the failed prompt. From there it
  is the dispatch of that prompt to this one model, the same task as a submission runs,
  retry loop included, under the retry settings of the closure: however far the
  schedule goes, it has sent at least one request and at most \<open>maxRetries + 1\<close>, and
  exactly one when automatic retry is disabled or \<open>maxRetries\<close> is 0.
\<close>

theorem retryFailedModel_runs_retry_loop:
  assumes win: "conversations st mid = Some conversation"
      and fp: "lastFailedPrompt conversation = Some failedPrompt"
      and fm: "find (\<lambda>m. model_id m = mid) (models st) = Some model"
      and en: "isEnabled model"
      and act: "cl_activeConversationId cl = Some currentActiveId" "currentActiveId \<noteq> []"
      and rs: "rs = (case cl_retrySettings cl of Some r \<Rightarrow> r | None \<Rightarrow> defaultRetrySettings)"
      and mr: "0 \<le> maxRetries rs"
  shows "retryFailedModel e server cl mid [] st =
           (st\<lparr>conversations := (conversations st)(mid \<mapsto>
                  conversation\<lparr>isLoading := True, mc_error := None,
                               canRetry := Some False, retryCount := Some 0\<rparr>)\<rparr>,
            [Sent mid (apiMessages e (storage st) currentActiveId model failedPrompt)])
       \<and> retryFailedModel e server cl mid schedule st =
           sendPromptToModels e server cl [model] failedPrompt schedule
             (st\<lparr>conversations := (conversations st)(mid \<mapsto>
                  conversation\<lparr>isLoading := True, mc_error := None,
                               canRetry := Some False, retryCount := Some 0\<rparr>)\<rparr>)
       \<and> (\<exists>rest. snd (retryFailedModel e server cl mid schedule st) =
             Sent mid (apiMessages e (storage st) currentActiveId model failedPrompt) # rest)
       \<and> 1 \<le> sends (snd (retryFailedModel e server cl mid schedule st))
       \<and> int (sends (snd (retryFailedModel e server cl mid schedule st))) \<le> maxRetries rs + 1
       \<and> (\<not> enabled rs \<or> maxRetries rs = 0
            \<longrightarrow> sends (snd (retryFailedModel e server cl mid schedule st)) = 1)"
proof -
  let ?st1 = "st\<lparr>conversations := (conversations st)(mid \<mapsto>
                        conversation\<lparr>isLoading := True, mc_error := None,
                                     canRetry := Some False, retryCount := Some 0\<rparr>)\<rparr>"
  let ?sent = "Sent mid (apiMessages e (storage st) currentActiveId model failedPrompt)"
  let ?run = "foldl (stepAt e server rs currentActiveId [model] failedPrompt)
                (?st1, [Requesting 0], [?sent]) schedule"
  have mid: "model_id model = mid" using fm by (rule find_model_id)
  have eq: "retryFailedModel e server cl mid schedule st =
              sendPromptToModels e server cl [model] failedPrompt schedule ?st1" for schedule
    using win fp fm en by (simp add: retryFailedModel_def)
  have b0: "beginAttempt e rs currentActiveId model failedPrompt 0 ?st1 = (Requesting 0, [?sent])"
    using mr mid by (simp add: beginAttempt_def)
  have sync: "retryFailedModel e server cl mid [] st = (?st1, [?sent])"
    using act rs b0 by (simp add: eq sendPromptToModels_def)
  have log: "snd (retryFailedModel e server cl mid schedule st) = snd (snd ?run)"
    using sendPromptToModels_run [OF act rs, of e server "[model]" failedPrompt schedule ?st1] b0
    by (simp add: eq)
  have s1: "sends [?sent] = 1" by (simp add: sends_def)
  from run_log_prefix [of e server rs currentActiveId "[model]" failedPrompt ?st1 "[Requesting 0]"
         "[?sent]" schedule]
  have pre: "\<exists>rest. snd (snd ?run) = ?sent # rest" by simp
  have bounds: "1 \<le> sends (snd (snd ?run)) \<and> int (sends (snd (snd ?run))) \<le> maxRetries rs + 1"
    by (rule run_single_requests) (use mr s1 in simp)
  have one: "sends (snd (snd ?run)) = 1" if "\<not> enabled rs \<or> maxRetries rs = 0"
    using run_single_once [OF that, of "Requesting 0" e server currentActiveId model failedPrompt
            ?st1 "[?sent]" schedule] s1
    by simp
  have c3: "\<exists>rest. snd (retryFailedModel e server cl mid schedule st) = ?sent # rest"
    using pre by (simp only: log)
  have c4: "1 \<le> sends (snd (retryFailedModel e server cl mid schedule st))"
    and c5: "int (sends (snd (retryFailedModel e server cl mid schedule st))) \<le> maxRetries rs + 1"
    using bounds by (simp_all only: log)
  have c6: "\<not> enabled rs \<or> maxRetries rs = 0
            \<longrightarrow> sends (snd (retryFailedModel e server cl mid schedule st)) = 1"
    using one by (simp only: log) blast
  from sync eq [of schedule] c3 c4 c5 c6 show ?thesis by (intro conjI)
qed

text \<open>
The theorem at the example state: a failed window of \<open>m\<close>, retry of every error.
\<close>

theorem retryFailedModel_runs_retry_loop_witness:
  "conversations ex_failed ''m'' = Some ex_failedWindow
   \<and> lastFailedPrompt ex_failedWindow = Some ex_again
   \<and> find (\<lambda>m. model_id m = ''m'') (models ex_failed) = Some ex_model
   \<and> isEnabled ex_model
   \<and> cl_activeConversationId (closure_of ex_failed) = Some ''c1''
   \<and> 0 \<le> maxRetries (defaultRetrySettings\<lparr>retryOnlyModelErrors := False\<rparr>)
   \<and> retryFailedModel ex_env ex_offline (closure_of ex_failed) ''m'' [] ex_failed =
       (ex_failed\<lparr>conversations := (conversations ex_failed)(''m'' \<mapsto>
            ex_failedWindow\<lparr>isLoading := True, mc_error := None,
                            canRetry := Some False, retryCount := Some 0\<rparr>)\<rparr>,
        [Sent ''m'' [(User, ''again'')]])
   \<and> 1 \<le> sends (snd (retryFailedModel ex_env ex_offline (closure_of ex_failed) ''m''
                       ex_retrySchedule ex_failed))
   \<and> int (sends (snd (retryFailedModel ex_env ex_offline (closure_of ex_failed) ''m''
                       ex_retrySchedule ex_failed)))
        \<le> maxRetries (defaultRetrySettings\<lparr>retryOnlyModelErrors := False\<rparr>) + 1"
proof -
  have h1: "conversations ex_failed ''m'' = Some ex_failedWindow"
    by (simp add: ex_failed_def)
  have h2: "lastFailedPrompt ex_failedWindow = Some ex_again"
    by (simp add: ex_failedWindow_def)
  have h3: "find (\<lambda>m. model_id m = ''m'') (models ex_failed) = Some ex_model"
    by (simp add: ex_failed_def ex_state_def ex_model_def)
  have h4: "isEnabled ex_model" by (simp add: ex_model_def)
  have h5: "cl_activeConversationId (closure_of ex_failed) = Some ''c1''"
    by (simp add: closure_of_def ex_failed_def ex_state_def)
  have h6: "''c1'' \<noteq> []" by simp
  have h7: "defaultRetrySettings\<lparr>retryOnlyModelErrors := False\<rparr> =
     (case cl_retrySettings (closure_of ex_failed) of Some r \<Rightarrow> r | None \<Rightarrow> defaultRetrySettings)"
    by (simp add: closure_of_def ex_failed_def)
  have h8: "0 \<le> maxRetries (defaultRetrySettings\<lparr>retryOnlyModelErrors := False\<rparr>)"
    by (simp add: defaultRetrySettings_def)
  have a: "apiMessages ex_env (storage ex_failed) ''c1'' ex_model ex_again = [(User, ''again'')]"
    by (simp add: apiMessages_def ex_model_def ex_again_def)
  from retryFailedModel_runs_retry_loop [OF h1 h2 h3 h4 h5 h6 h7 h8, of ex_env ex_offline
         ex_retrySchedule]
  show ?thesis using h1 h2 h3 h4 h5 h8 unfolding a by blast
qed

text \<open>
  C1, as the claim states it, fails. With \<open>maxRetries = 2\<close>, the strategy \<open>fixed\<close> and
  \<open>retryOnlyModelErrors\<close> off, a manual retry while every \<open>fetch\<close> rejects sends three
  requests, with the two configured waits in between.
\<close>

theorem retryFailedModel_counterexample:
  "snd (retryFailedModel ex_env ex_offline (closure_of ex_failed) ''m'' ex_retrySchedule ex_failed)
     = [Sent ''m'' [(User, ''again'')], Waited 2000,
        Sent ''m'' [(User, ''again'')], Waited 2000,
        Sent ''m'' [(User, ''again'')]]"
  by (simp add: retryFailedModel_def run_defs closure_of_def
        eval_defs ex_defs ex_retrySchedule_def)

subsection \<open>Automatic retry and the errors of the transport\<close>

lemma unloaded_message_lacks_not_loaded: "\<not> str_includes (toLowerCase ''Model unloaded during response. Please reload the model in LM Studio.'') ''not loaded''"
  by (simp add: toLowerCase_def toLowerCase_char_def char_of_eq_iff)

lemma sendMessage_raises_NetworkError:
  "sendMessage mid outcome = Inl err \<Longrightarrow> \<exists>m code. err = NetworkError m code"
  by (auto simp: sendMessage_def Let_def split: fetch_outcome.splits if_splits)

lemma parseLines_error_not_retried:
  "retryOnlyModelErrors rs \<Longrightarrow> snd (parseLines lines ending) = Some err \<Longrightarrow> \<not> shouldRetryError rs err"
  by (induction lines ending rule: parseLines.induct)
     (auto simp: shouldRetryError_def unloaded_message_lacks_not_loaded split: option.splits if_splits prod.splits)

lemma parseStreamingResponse_error_not_retried:
  assumes "retryOnlyModelErrors rs" and "snd (parseStreamingResponse response) = Some err"
  shows "\<not> shouldRetryError rs err"
proof (cases "body response")
  case NoBody
  with assms show ?thesis by (auto simp: parseStreamingResponse_def shouldRetryError_def)
next
  case (Body lines ending)
  with assms(2) have "snd (parseLines lines ending) = Some err"
    by (simp add: parseStreamingResponse_def)
  with assms(1) show ?thesis by (rule parseLines_error_not_retried)
qed

lemma sendMessage_error_not_retried:
  "retryOnlyModelErrors rs \<Longrightarrow> sendMessage mid outcome = Inl err \<Longrightarrow> \<not> shouldRetryError rs err"
  by (auto simp: shouldRetryError_def dest: sendMessage_raises_NetworkError)

lemma onError_Break: "\<not> shouldRetryError rs err \<Longrightarrow> fst (onError rs model prompt n err st) = Break"
  by (simp add: onError_def Let_def)

lemma attempt_only_model_errors:
  assumes "retryOnlyModelErrors rs"
  shows "fst (attempt e now outcome rs a model prompt n st) = Break"
proof (cases "sendMessage (model_id model) outcome")
  case (Inl err)
  with assms have "\<not> shouldRetryError rs err" by (blast dest: sendMessage_error_not_retried)
  then have "fst (onError rs model prompt n err st) = Break" by (rule onError_Break)
  moreover obtain c st' evs where "onError rs model prompt n err st = (c, st', evs)"
    by (cases "onError rs model prompt n err st") auto
  ultimately show ?thesis using Inl by (simp add: attempt_def Let_def)
next
  case (Inr response)
  obtain chunks failure where p: "parseStreamingResponse response = (chunks, failure)"
    by (cases "parseStreamingResponse response") auto
  show ?thesis
  proof (cases failure)
    case None
    with Inr p show ?thesis by (simp add: attempt_def Let_def split: prod.split)
  next
    case (Some err)
    obtain buf convs' where cc: "consumeChunks now (model_id model) chunks [] (conversations st) = (buf, convs')"
      by (cases "consumeChunks now (model_id model) chunks [] (conversations st)") auto
    from assms p Some have "\<not> shouldRetryError rs err"
      using parseStreamingResponse_error_not_retried [of rs response err] by simp
    then have "fst (onError rs model prompt n err (st\<lparr>conversations := convs'\<rparr>)) = Break"
      by (rule onError_Break)
    moreover obtain c st' evs
      where "onError rs model prompt n err (st\<lparr>conversations := convs'\<rparr>) = (c, st', evs)"
      by (cases "onError rs model prompt n err (st\<lparr>conversations := convs'\<rparr>)") auto
    ultimately show ?thesis using Inr p Some cc by (simp add: attempt_def Let_def)
  qed
qed

text \<open>
  With \<open>retryOnlyModelErrors\<close> on, no error that the transport raises is ever retried:
  whatever the server does, the task sends exactly one request, when it runs alone and
  in a dispatch, however it is scheduled.
\<close>

lemma modelTask_only_model_errors:
  assumes "retryOnlyModelErrors rs" and "int n \<le> maxRetries rs"
  shows "sends (snd (modelTask e clock server rs a model prompt n (st, log))) = sends log + 1"
proof -
  obtain c st' evs where att: "attempt e (clock n) (server n) rs a model prompt n st = (c, st', evs)"
    by (cases "attempt e (clock n) (server n) rs a model prompt n st") auto
  with attempt_only_model_errors [OF assms(1), of e "clock n" "server n" a model prompt n st]
  have "c = Break" by simp
  with att assms(2) attempt_sends [of e "clock n" "server n" rs a model prompt n st]
  show ?thesis by (simp add: modelTask.simps [of e clock server rs a model prompt n] sends_def)
qed

lemma taskStep_only_model_errors:
  assumes step: "taskStep e server rs a model prompt now t st = (t', st', evs)"
    and only: "retryOnlyModelErrors rs"
    and inv: "case t of Streaming n b c (Some err) \<Rightarrow> \<not> shouldRetryError rs err
              | Waiting n \<Rightarrow> False | _ \<Rightarrow> True"
  shows "sends evs = 0
       \<and> (case t' of Streaming n b c (Some err) \<Rightarrow> \<not> shouldRetryError rs err
           | Waiting n \<Rightarrow> False | _ \<Rightarrow> True)"
proof (cases t)
  case (Requesting n)
  show ?thesis
  proof (cases "sendMessage (model_id model) (server n)")
    case (Inl err)
    with only have "\<not> shouldRetryError rs err" by (blast dest: sendMessage_error_not_retried)
    with afterError_result [of e rs a model prompt n err st] step Requesting Inl
    show ?thesis by (simp add: taskStep_Requesting sends_simps)
  next
    case (Inr response)
    have "\<not> shouldRetryError rs err" if "snd (parseStreamingResponse response) = Some err" for err
      using only that by (rule parseStreamingResponse_error_not_retried)
    with step Requesting Inr show ?thesis
      by (auto simp: taskStep_Requesting sends_simps split: option.splits)
  qed
next
  case (Streaming n buf chunks failure)
  show ?thesis
  proof (cases chunks)
    case (Cons chunk rest)
    with step Streaming inv show ?thesis by (auto simp: taskStep_chunk sends_simps)
  next
    case Nil
    show ?thesis
    proof (cases failure)
      case None
      with step Streaming Nil show ?thesis by (auto simp: taskStep_end sends_simps)
    next
      case (Some err)
      with inv Streaming have "\<not> shouldRetryError rs err" by simp
      with afterError_result [of e rs a model prompt n err st] step Streaming Nil Some
      show ?thesis by (simp add: taskStep_end sends_simps)
    qed
  qed
next
  case (Waiting n)
  with inv show ?thesis by simp
next
  case Finished
  with step show ?thesis by (auto simp: taskStep_Finished sends_simps)
qed

lemma run_only_model_errors:
  assumes only: "retryOnlyModelErrors rs"
    and inv: "case t of Streaming n b c (Some err) \<Rightarrow> \<not> shouldRetryError rs err
              | Waiting n \<Rightarrow> False | _ \<Rightarrow> True"
  shows "sends (snd (snd (foldl (stepAt e server rs a [model] prompt) (st, [t], log) schedule)))
           = sends log"
proof -
  let ?P = "\<lambda>x. case x of (st', tasks', log') \<Rightarrow>
     \<exists>t'. tasks' = [t'] \<and> sends log' = sends log
       \<and> (case t' of Streaming n b c (Some err) \<Rightarrow> \<not> shouldRetryError rs err
           | Waiting n \<Rightarrow> False | _ \<Rightarrow> True)"
  have "?P (foldl (stepAt e server rs a [model] prompt) (st, [t], log) schedule)"
  proof (rule foldl_invariant [where P = ?P])
    show "?P (st, [t], log)" using inv by simp
  next
    fix x :: "app \<times> task list \<times> event list" and entry :: "nat \<times> int"
    assume px: "?P x"
    obtain st1 tasks1 log1 where x: "x = (st1, tasks1, log1)" by (cases x) auto
    obtain i now where en: "entry = (i, now)" by (cases entry) auto
    from px x obtain t1 where t1: "tasks1 = [t1]" "sends log1 = sends log"
      and inv1: "case t1 of Streaming n b c (Some err) \<Rightarrow> \<not> shouldRetryError rs err
                 | Waiting n \<Rightarrow> False | _ \<Rightarrow> True"
      by auto
    show "?P (stepAt e server rs a [model] prompt x entry)"
    proof (cases "i = 0")
      case False
      with px x t1 en show ?thesis by (simp add: stepAt_single)
    next
      case True
      obtain t' st' evs
        where step: "taskStep e (server (model_id model)) rs a model prompt now t1 st1 = (t', st', evs)"
        by (cases "taskStep e (server (model_id model)) rs a model prompt now t1 st1") auto
      from taskStep_only_model_errors [OF step only inv1] step True x t1 en show ?thesis
        by (simp add: stepAt_single sends_simps)
    qed
  qed
  then show ?thesis by (auto split: prod.splits)
qed

lemma sendPromptToModels_only_model_errors:
  assumes act: "cl_activeConversationId cl = Some a" "a \<noteq> []"
    and rs: "rs = (case cl_retrySettings cl of Some r \<Rightarrow> r | None \<Rightarrow> defaultRetrySettings)"
    and only: "retryOnlyModelErrors rs" and mr: "0 \<le> maxRetries rs"
  shows "sends (snd (sendPromptToModels e server cl [model] prompt schedule st)) = 1"
proof -
  have b0: "beginAttempt e rs a model prompt 0 st =
              (Requesting 0, [Sent (model_id model) (apiMessages e (storage st) a model prompt)])"
    using mr by (simp add: beginAttempt_def)
  have "sends (snd (snd (foldl (stepAt e server rs a [model] prompt)
           (st, [Requesting 0], [Sent (model_id model) (apiMessages e (storage st) a model prompt)])
           schedule)))
        = sends [Sent (model_id model) (apiMessages e (storage st) a model prompt)]"
    by (rule run_only_model_errors [OF only]) simp
  then show ?thesis
    using sendPromptToModels_run [OF act rs, of e server "[model]" prompt schedule st] b0
    by (simp add: sends_simps)
qed

text \<open>
  C2 on the code, under the default settings (\<open>maxRetries = 2\<close>, \<open>retryOnlyModelErrors\<close>
  on). A server that answers every request with status 404 and the error message
  \<open>Model not loaded\<close>: the task sends one request and fails with \<open>retryCount = 0\<close> and
  \<open>canRetry\<close> set; the \<open>ConfigurationError\<close> of \<open>sendMessage\<close> is dropped by its own
  \<open>catch\<close> and a \<open>NetworkError\<close> with the status text is what the task sees. A server
  that reports \<open>Model unloaded\<close> in the stream after a first fragment: again one
  request, \<open>retryCount = 0\<close>; the message of the \<open>ConfigurationError\<close> that
  \<open>parseStreamingResponse\<close> throws does not contain \<open>not loaded\<close>, which is what
  \<open>shouldRetryError\<close> looks for. So it is for the task that runs alone, and for the
  dispatch of the prompt to the model, resumed five times.
\<close>

theorem unavailable_model_not_retried:
  "snd (modelTask ex_env ex_clock ex_notLoaded defaultRetrySettings ''c1'' ex_model ex_again 0
          (ex_state, []))
     = [Sent ''m'' [(User, ''again'')]]
   \<and> map_option retryCount (conversations (fst (modelTask ex_env ex_clock ex_notLoaded
          defaultRetrySettings ''c1'' ex_model ex_again 0 (ex_state, []))) ''m'') = Some (Some 0)
   \<and> map_option canRetry (conversations (fst (modelTask ex_env ex_clock ex_notLoaded
          defaultRetrySettings ''c1'' ex_model ex_again 0 (ex_state, []))) ''m'') = Some (Some True)
   \<and> map_option mc_error (conversations (fst (modelTask ex_env ex_clock ex_notLoaded
          defaultRetrySettings ''c1'' ex_model ex_again 0 (ex_state, []))) ''m'')
       = Some (Some ''Failed to send message: HTTP 404'')
   \<and> snd (modelTask ex_env ex_clock ex_unloadedMidStream defaultRetrySettings ''c1'' ex_model
          ex_again 0 (ex_state, []))
     = [Sent ''m'' [(User, ''again'')]]
   \<and> map_option retryCount (conversations (fst (modelTask ex_env ex_clock ex_unloadedMidStream
          defaultRetrySettings ''c1'' ex_model ex_again 0 (ex_state, []))) ''m'') = Some (Some 0)
   \<and> map_option canRetry (conversations (fst (modelTask ex_env ex_clock ex_unloadedMidStream
          defaultRetrySettings ''c1'' ex_model ex_again 0 (ex_state, []))) ''m'') = Some (Some True)
   \<and> map_option mc_error (conversations (fst (modelTask ex_env ex_clock ex_unloadedMidStream
          defaultRetrySettings ''c1'' ex_model ex_again 0 (ex_state, []))) ''m'')
       = Some (Some ''Model unloaded during response. Please reload the model in LM Studio.'')
   \<and> snd (sendPromptToModels ex_env (\<lambda>mid. ex_notLoaded) (closure_of ex_state) [ex_model]
          ex_again ex_retrySchedule ex_state)
     = [Sent ''m'' [(User, ''again'')]]
   \<and> map_option (\<lambda>mc. (retryCount mc, canRetry mc, mc_error mc))
       (conversations (fst (sendPromptToModels ex_env (\<lambda>mid. ex_notLoaded) (closure_of ex_state)
          [ex_model] ex_again ex_retrySchedule ex_state)) ''m'')
     = Some (Some 0, Some True, Some ''Failed to send message: HTTP 404'')
   \<and> snd (sendPromptToModels ex_env (\<lambda>mid. ex_unloadedMidStream) (closure_of ex_state) [ex_model]
          ex_again ex_retrySchedule ex_state)
     = [Sent ''m'' [(User, ''again'')]]
   \<and> map_option (\<lambda>mc. (retryCount mc, canRetry mc, mc_error mc))
       (conversations (fst (sendPromptToModels ex_env (\<lambda>mid. ex_unloadedMidStream)
          (closure_of ex_state) [ex_model] ex_again ex_retrySchedule ex_state)) ''m'')
     = Some (Some 0, Some True,
             Some ''Model unloaded during response. Please reload the model in LM Studio.'')"
  by (simp add: modelTask.simps run_defs closure_of_def eval_defs ex_defs ex_retrySchedule_def)

subsection \<open>The conversation store\<close>

lemma getAll_ok:
  "storageWorks e \<Longrightarrow>
   getAllConversations e s = (case conversations_item s of Some cs \<Rightarrow> cs | None \<Rightarrow> [])"
  by (simp add: storageWorks_def getAllConversations_def)

lemma getAll_active_update [simp]:
  "getAllConversations e (s\<lparr>active_item := a\<rparr>) = getAllConversations e s"
  by (simp add: getAllConversations_def)

lemma getAll_written:
  "storageWorks e \<Longrightarrow> getAllConversations e (s\<lparr>conversations_item := Some cs\<rparr>) = cs"
  by (simp add: getAll_ok)

lemma getAll_svc_delete:
  "storageWorks e \<Longrightarrow>
   getAllConversations e (svc_deleteConversation e i s) =
     filter (\<lambda>c. conv_id c \<noteq> i) (getAllConversations e s)"
  by (simp add: svc_deleteConversation_def setItem_conversations_def Let_def
        setActiveConversation_def setItem_active_def clearActiveConversation_def
        getAll_written storageWorks_def [THEN iffD1] split: list.split)

lemma getAll_fold_delete:
  "storageWorks e \<Longrightarrow>
   getAllConversations e (fold (\<lambda>c. svc_deleteConversation e (conv_id c)) ds s) =
     filter (\<lambda>c. conv_id c \<notin> conv_id ` set ds) (getAllConversations e s)"
proof (induction ds arbitrary: s)
  case Nil
  then show ?case by simp
next
  case (Cons d ds)
  then show ?case by (simp add: getAll_svc_delete conj_commute)
qed

lemma evictOverCount_eq:
  "evictOverCount e xs s =
     (drop (length xs - MAX_CONVERSATIONS) xs,
      fold (\<lambda>c. svc_deleteConversation e (conv_id c)) (take (length xs - MAX_CONVERSATIONS) xs) s)"
proof (induction xs arbitrary: s)
  case Nil
  then show ?case by simp
next
  case (Cons x xs)
  show ?case
  proof (cases "length (x # xs) > MAX_CONVERSATIONS")
    case True
    then have "length (x # xs) - MAX_CONVERSATIONS = Suc (length xs - MAX_CONVERSATIONS)"
      by simp
    with True Cons.IH show ?thesis by simp
  next
    case False
    then show ?thesis by simp
  qed
qed

lemma evictOverSize_ex:
  "\<exists>k. k \<le> length xs - 1 \<and>
       evictOverSize e xs s = fold (\<lambda>c. svc_deleteConversation e (conv_id c)) (take k xs) s"
proof (induction xs arbitrary: s)
  case Nil
  then show ?case by simp
next
  case (Cons x xs)
  show ?case
  proof (cases "estimateStorageSize e s > MAX_STORAGE_SIZE \<and> length (x # xs) > 1")
    case True
    from Cons.IH [of "svc_deleteConversation e (conv_id x) s"]
    obtain k where k: "k \<le> length xs - 1"
      "evictOverSize e xs (svc_deleteConversation e (conv_id x) s) =
         fold (\<lambda>c. svc_deleteConversation e (conv_id c)) (take k xs)
           (svc_deleteConversation e (conv_id x) s)"
      by blast
    from True have "Suc k \<le> length (x # xs) - 1" using k(1) by (cases xs) auto
    moreover have "evictOverSize e (x # xs) s =
        fold (\<lambda>c. svc_deleteConversation e (conv_id c)) (take (Suc k) (x # xs)) s"
      using True k(2) by simp
    ultimately show ?thesis by blast
  next
    case False
    then have "evictOverSize e (x # xs) s =
        fold (\<lambda>c. svc_deleteConversation e (conv_id c)) (take 0 (x # xs)) s"
      by auto
    then show ?thesis by (intro exI [of _ 0]) simp
  qed
qed

lemma cleanup_ex:
  assumes "storageWorks e"
  shows "\<exists>k. length (getAllConversations e s) - MAX_CONVERSATIONS \<le> k
           \<and> k \<le> length (getAllConversations e s) - 1
           \<and> getAllConversations e (cleanupOldConversations e s) =
               filter (\<lambda>c. conv_id c \<notin>
                   conv_id ` set (take k (sort_key updatedAt (getAllConversations e s))))
                 (getAllConversations e s)"
proof -
  let ?cs = "getAllConversations e s"
  let ?sorted = "sort_key updatedAt ?cs"
  let ?d = "length ?sorted - MAX_CONVERSATIONS"
  let ?del = "\<lambda>c. svc_deleteConversation e (conv_id c)"
  from evictOverSize_ex [of "drop ?d ?sorted" e "fold ?del (take ?d ?sorted) s"]
  obtain k2 where k2: "k2 \<le> length (drop ?d ?sorted) - 1"
    "evictOverSize e (drop ?d ?sorted) (fold ?del (take ?d ?sorted) s) =
       fold ?del (take k2 (drop ?d ?sorted)) (fold ?del (take ?d ?sorted) s)"
    by blast
  have "cleanupOldConversations e s = fold ?del (take (?d + k2) ?sorted) s"
    using k2(2) by (simp add: cleanupOldConversations_def Let_def evictOverCount_eq take_add)
  then have "getAllConversations e (cleanupOldConversations e s) =
      filter (\<lambda>c. conv_id c \<notin> conv_id ` set (take (?d + k2) ?sorted)) ?cs"
    using assms by (simp add: getAll_fold_delete)
  moreover have "length ?cs - MAX_CONVERSATIONS \<le> ?d + k2" by simp
  moreover have "?d + k2 \<le> length ?cs - 1" using k2(1) by (simp add: MAX_CONVERSATIONS_def)
  ultimately show ?thesis by blast
qed

lemma putConversation_Nil [simp]: "putConversation c [] = [c]"
  by (simp add: putConversation_def)

lemma putConversation_Cons [simp]:
  "putConversation c (x # xs) =
     (if conv_id x = conv_id c then c # xs else x # putConversation c xs)"
  by (simp add: putConversation_def split: option.split)

lemma putConversation_mem: "c \<in> set (putConversation c cs)"
  by (induction cs) simp_all

lemma putConversation_set: "set (putConversation c cs) \<subseteq> insert c (set cs)"
  by (induction cs) auto

lemma putConversation_ids:
  "map conv_id (putConversation c cs) =
     (if conv_id c \<in> conv_id ` set cs then map conv_id cs else map conv_id cs @ [conv_id c])"
  by (induction cs) auto

lemma putConversation_distinct:
  "distinct (map conv_id cs) \<Longrightarrow> distinct (map conv_id (putConversation c cs))"
  by (simp add: putConversation_ids)

lemma putConversation_others:
  "distinct (map conv_id cs) \<Longrightarrow> x \<in> set (putConversation c cs) \<Longrightarrow> x \<noteq> c \<Longrightarrow>
   x \<in> set cs \<and> conv_id x \<noteq> conv_id c"
  by (induction cs) (auto split: if_splits simp: image_iff)

lemma saveConversation_ok:
  "storageWorks e \<Longrightarrow>
   saveConversation e c s =
     cleanupOldConversations e
       (s\<lparr>conversations_item := Some (putConversation c (getAllConversations e s))\<rparr>)"
  by (simp add: saveConversation_def setItem_conversations_def Let_def storageWorks_def)

lemma cleanup_length:
  assumes "storageWorks e"
  shows "length (getAllConversations e (cleanupOldConversations e s)) \<le> MAX_CONVERSATIONS"
proof -
  let ?cs = "getAllConversations e s"
  let ?sorted = "sort_key updatedAt ?cs"
  from cleanup_ex [OF assms, of s] obtain k where k:
    "length ?cs - MAX_CONVERSATIONS \<le> k" "k \<le> length ?cs - 1"
    "getAllConversations e (cleanupOldConversations e s) =
       filter (\<lambda>c. conv_id c \<notin> conv_id ` set (take k ?sorted)) ?cs"
    by blast
  let ?P = "\<lambda>c. conv_id c \<notin> conv_id ` set (take k ?sorted)"
  have "length (filter ?P ?cs) = length (filter ?P ?sorted)"
    by (simp add: filter_sort)
  also have "\<dots> = length (filter ?P (take k ?sorted @ drop k ?sorted))" by simp
  also have "\<dots> = length (filter ?P (drop k ?sorted))"
    by (simp only: filter_append) (simp add: filter_empty_conv)
  also have "\<dots> \<le> length (drop k ?sorted)" by (rule length_filter_le)
  also have "\<dots> \<le> MAX_CONVERSATIONS" using k(1) by simp
  finally show ?thesis by (simp only: k(3))
qed

lemma sorted_take_drop_le:
  assumes "sorted (map f xs)" and "r \<in> set (take k xs)" and "x \<in> set (drop k xs)"
  shows "f r \<le> f x"
proof -
  have "sorted (map f (take k xs) @ map f (drop k xs))"
    using assms(1) by (simp flip: map_append)
  then show ?thesis using assms(2,3) by (auto simp: sorted_append)
qed

lemma cleanup_distinct_result:
  assumes "storageWorks e" and "distinct (map conv_id (getAllConversations e s))"
  shows "\<exists>k. length (getAllConversations e s) - MAX_CONVERSATIONS \<le> k
           \<and> k \<le> length (getAllConversations e s) - 1
           \<and> getAllConversations e (cleanupOldConversations e s) =
               filter (\<lambda>c. c \<in> set (drop k (sort_key updatedAt (getAllConversations e s))))
                 (getAllConversations e s)
           \<and> set (getAllConversations e s) - set (getAllConversations e (cleanupOldConversations e s))
               = set (take k (sort_key updatedAt (getAllConversations e s)))"
proof -
  let ?cs = "getAllConversations e s"
  let ?sorted = "sort_key updatedAt ?cs"
  from cleanup_ex [OF assms(1), of s] obtain k where k:
    "length ?cs - MAX_CONVERSATIONS \<le> k" "k \<le> length ?cs - 1"
    "getAllConversations e (cleanupOldConversations e s) =
       filter (\<lambda>c. conv_id c \<notin> conv_id ` set (take k ?sorted)) ?cs"
    by blast
  have inj: "inj_on conv_id (set ?cs)" using assms(2) by (simp add: distinct_map)
  have dist: "distinct ?sorted" using assms(2) by (simp add: distinct_map)
  have parts: "set (take k ?sorted) \<union> set (drop k ?sorted) = set ?cs"
    using set_append [of "take k ?sorted" "drop k ?sorted"] by simp
  have disj: "set (take k ?sorted) \<inter> set (drop k ?sorted) = {}"
    using dist distinct_append [of "take k ?sorted" "drop k ?sorted"] by simp
  have iff: "conv_id c \<notin> conv_id ` set (take k ?sorted) \<longleftrightarrow> c \<in> set (drop k ?sorted)"
    if "c \<in> set ?cs" for c
  proof
    assume "conv_id c \<notin> conv_id ` set (take k ?sorted)"
    then have "c \<notin> set (take k ?sorted)" by blast
    with that parts show "c \<in> set (drop k ?sorted)" by blast
  next
    assume d: "c \<in> set (drop k ?sorted)"
    show "conv_id c \<notin> conv_id ` set (take k ?sorted)"
    proof
      assume "conv_id c \<in> conv_id ` set (take k ?sorted)"
      then obtain r where r: "r \<in> set (take k ?sorted)" "conv_id r = conv_id c" by auto
      with parts have "r \<in> set ?cs" by blast
      with inj r(2) that have "r = c" by (auto dest: inj_onD)
      with r(1) d disj show False by blast
    qed
  qed
  have eq: "filter (\<lambda>c. conv_id c \<notin> conv_id ` set (take k ?sorted)) ?cs =
            filter (\<lambda>c. c \<in> set (drop k ?sorted)) ?cs"
    by (rule filter_cong) (simp_all add: iff)
  have "set ?cs - set (filter (\<lambda>c. c \<in> set (drop k ?sorted)) ?cs) = set (take k ?sorted)"
    using parts disj by auto
  with k eq show ?thesis by (intro exI [of _ k]) simp
qed

lemma cleanup_oldest_first:
  assumes "storageWorks e" and "distinct (map conv_id (getAllConversations e s))"
    and "r \<in> set (getAllConversations e s)"
    and "r \<notin> set (getAllConversations e (cleanupOldConversations e s))"
    and "x \<in> set (getAllConversations e (cleanupOldConversations e s))"
  shows "updatedAt r \<le> updatedAt x"
proof -
  let ?cs = "getAllConversations e s"
  let ?sorted = "sort_key updatedAt ?cs"
  from cleanup_distinct_result [OF assms(1,2)] obtain k where k:
    "getAllConversations e (cleanupOldConversations e s) =
       filter (\<lambda>c. c \<in> set (drop k ?sorted)) ?cs"
    "set ?cs - set (getAllConversations e (cleanupOldConversations e s)) = set (take k ?sorted)"
    by blast
  from assms(3,4) k(2) have "r \<in> set (take k ?sorted)" by blast
  moreover from assms(5) k(1) have "x \<in> set (drop k ?sorted)" by simp
  moreover have "sorted (map updatedAt ?sorted)" by simp
  ultimately show ?thesis by (blast intro: sorted_take_drop_le)
qed

lemma cleanup_subset:
  assumes "storageWorks e"
  shows "set (getAllConversations e (cleanupOldConversations e s)) \<subseteq> set (getAllConversations e s)"
  using cleanup_ex [OF assms, of s] by auto

lemma cleanup_distinct:
  assumes "storageWorks e" and "distinct (map conv_id (getAllConversations e s))"
  shows "distinct (map conv_id (getAllConversations e (cleanupOldConversations e s)))"
  using cleanup_ex [OF assms(1), of s] assms(2) by (auto simp: distinct_map_filter)

lemma cleanup_keeps_newest:
  assumes "storageWorks e" and "distinct (map conv_id (getAllConversations e s))"
    and "c \<in> set (getAllConversations e s)"
    and "\<forall>x \<in> set (getAllConversations e s). x \<noteq> c \<longrightarrow> updatedAt x < updatedAt c"
  shows "c \<in> set (getAllConversations e (cleanupOldConversations e s))"
proof (rule ccontr)
  let ?cs = "getAllConversations e s"
  let ?sorted = "sort_key updatedAt ?cs"
  assume gone: "c \<notin> set (getAllConversations e (cleanupOldConversations e s))"
  from cleanup_distinct_result [OF assms(1,2)] obtain k where k:
    "k \<le> length ?cs - 1"
    "getAllConversations e (cleanupOldConversations e s) =
       filter (\<lambda>c. c \<in> set (drop k ?sorted)) ?cs"
    "set ?cs - set (getAllConversations e (cleanupOldConversations e s)) = set (take k ?sorted)"
    by blast
  from assms(3) gone k(3) have c: "c \<in> set (take k ?sorted)" by blast
  from assms(3) have "?cs \<noteq> []" by auto
  with k(1) have "k < length ?sorted" by (cases ?cs) auto
  then have "drop k ?sorted \<noteq> []" by simp
  then obtain y where y: "y \<in> set (drop k ?sorted)" by (cases "drop k ?sorted") auto
  have "sorted (map updatedAt ?sorted)" by simp
  with c y have le: "updatedAt c \<le> updatedAt y" by (blast intro: sorted_take_drop_le)
  from y have ycs: "y \<in> set ?cs" using in_set_dropD [of y k ?sorted] by simp
  with y k(2) have "y \<in> set (getAllConversations e (cleanupOldConversations e s))" by simp
  with gone have "y \<noteq> c" by blast
  with assms(4) ycs have "updatedAt y < updatedAt c" by blast
  with le show False by simp
qed

lemma find_by_id:
  "distinct (map conv_id cs) \<Longrightarrow> c \<in> set cs \<Longrightarrow> find (\<lambda>x. conv_id x = conv_id c) cs = Some c"
  by (induction cs) (auto simp: image_iff)

lemma find_by_id_None: "i \<notin> conv_id ` set cs \<Longrightarrow> find (\<lambda>x. conv_id x = i) cs = None"
  by (induction cs) auto

lemma saveConversation_keeps_newest:
  assumes ok: "storageWorks e" and dist: "distinct (map conv_id (getAllConversations e s))"
    and newest: "\<forall>x \<in> set (getAllConversations e s).
                   conv_id x \<noteq> conv_id c \<longrightarrow> updatedAt x < updatedAt c"
  shows "getConversation e (saveConversation e c s) (conv_id c) = Some c"
proof -
  let ?s1 = "s\<lparr>conversations_item := Some (putConversation c (getAllConversations e s))\<rparr>"
  have g1: "getAllConversations e ?s1 = putConversation c (getAllConversations e s)"
    using ok by (simp add: getAll_written)
  have d1: "distinct (map conv_id (getAllConversations e ?s1))"
    using dist by (simp add: g1 putConversation_distinct)
  have m1: "c \<in> set (getAllConversations e ?s1)" by (simp add: g1 putConversation_mem)
  have n1: "\<forall>x \<in> set (getAllConversations e ?s1). x \<noteq> c \<longrightarrow> updatedAt x < updatedAt c"
    using newest putConversation_others [OF dist, of _ c] by (auto simp: g1)
  have "c \<in> set (getAllConversations e (cleanupOldConversations e ?s1))"
    by (rule cleanup_keeps_newest [OF ok d1 m1 n1])
  moreover have "distinct (map conv_id (getAllConversations e (cleanupOldConversations e ?s1)))"
    by (rule cleanup_distinct [OF ok d1])
  ultimately show ?thesis
    using ok by (simp add: getConversation_def saveConversation_ok find_by_id)
qed


lemma saveConversation_subset:
  assumes "storageWorks e"
  shows "set (getAllConversations e (saveConversation e c s))
           \<subseteq> set (putConversation c (getAllConversations e s))"
  using cleanup_subset [OF assms, of "s\<lparr>conversations_item := Some (putConversation c (getAllConversations e s))\<rparr>"]
    assms by (simp add: saveConversation_ok getAll_written)

text \<open>
  C10, amended. In a browser whose storage works, after \<open>saveConversation\<close> at most 50
  conversations are stored. When the stored ids are distinct, the conversations stored
  afterwards are among those written, every conversation that was written and is stored no
  longer is at most as recently updated as every conversation still stored, and the
  conversation just saved is still stored if every other stored conversation was updated
  strictly before it.
\<close>

theorem saveConversation_cleanup:
  assumes "storageWorks e"
  shows "length (getAllConversations e (saveConversation e c s)) \<le> MAX_CONVERSATIONS
     \<and> (distinct (map conv_id (getAllConversations e s)) \<longrightarrow>
          set (getAllConversations e (saveConversation e c s))
            \<subseteq> set (putConversation c (getAllConversations e s))
          \<and> (\<forall>r \<in> set (putConversation c (getAllConversations e s))
                     - set (getAllConversations e (saveConversation e c s)).
               \<forall>x \<in> set (getAllConversations e (saveConversation e c s)).
                 updatedAt r \<le> updatedAt x)
          \<and> ((\<forall>x \<in> set (getAllConversations e s).
                  conv_id x \<noteq> conv_id c \<longrightarrow> updatedAt x < updatedAt c)
               \<longrightarrow> getConversation e (saveConversation e c s) (conv_id c) = Some c))"
proof -
  let ?s1 = "s\<lparr>conversations_item := Some (putConversation c (getAllConversations e s))\<rparr>"
  have sv: "saveConversation e c s = cleanupOldConversations e ?s1"
    using assms by (rule saveConversation_ok)
  have g1: "getAllConversations e ?s1 = putConversation c (getAllConversations e s)"
    using assms by (simp add: getAll_written)
  have len: "length (getAllConversations e (saveConversation e c s)) \<le> MAX_CONVERSATIONS"
    unfolding sv using assms by (rule cleanup_length)
  have old: "updatedAt r \<le> updatedAt x"
    if "distinct (map conv_id (getAllConversations e s))"
      and "r \<in> set (putConversation c (getAllConversations e s))"
      and "r \<notin> set (getAllConversations e (saveConversation e c s))"
      and "x \<in> set (getAllConversations e (saveConversation e c s))" for r x
  proof -
    have "distinct (map conv_id (getAllConversations e ?s1))"
      using that(1) by (simp add: g1 putConversation_distinct)
    from cleanup_oldest_first [OF assms this, of r x] that(2,3,4) show ?thesis
      by (simp add: g1 sv)
  qed
  show ?thesis
    using len old saveConversation_subset [OF assms, of c s]
      saveConversation_keeps_newest [OF assms, of s c]
    by blast
qed

lemma storageWorks_ex_env: "storageWorks ex_env"
  by (simp add: storageWorks_def ex_env_def)

lemma storageWorks_ex_fullEnv: "storageWorks ex_fullEnv"
  by (simp add: storageWorks_def ex_fullEnv_def)

lemma putConversation_new: "conv_id c \<notin> conv_id ` set cs \<Longrightarrow> putConversation c cs = cs @ [c]"
  by (induction cs) auto

lemma sort_key_snoc_least:
  "\<forall>y \<in> set xs. f x < f y \<Longrightarrow> sort_key f (xs @ [x]) = x # sort_key f xs"
  by (induction xs) (auto simp: not_le)

lemma saveConversation_evicts_oldest:
  assumes ok: "storageWorks e"
    and new: "conv_id c \<notin> conv_id ` set (getAllConversations e s)"
    and oldest: "\<forall>x \<in> set (getAllConversations e s). updatedAt c < updatedAt x"
    and full: "MAX_CONVERSATIONS \<le> length (getAllConversations e s)"
  shows "getConversation e (saveConversation e c s) (conv_id c) = None"
proof -
  let ?cs = "getAllConversations e s"
  let ?s1 = "s\<lparr>conversations_item := Some (putConversation c ?cs)\<rparr>"
  have g1: "getAllConversations e ?s1 = ?cs @ [c]"
    using ok new by (simp add: getAll_written putConversation_new)
  have srt: "sort_key updatedAt (?cs @ [c]) = c # sort_key updatedAt ?cs"
    using oldest by (rule sort_key_snoc_least)
  from cleanup_ex [OF ok, of ?s1] obtain k where k:
    "length (?cs @ [c]) - MAX_CONVERSATIONS \<le> k"
    "getAllConversations e (cleanupOldConversations e ?s1) =
       filter (\<lambda>x. conv_id x \<notin> conv_id ` set (take k (sort_key updatedAt (?cs @ [c]))))
         (?cs @ [c])"
    unfolding g1 by blast
  from k(1) full have "0 < k" by simp
  then have "c \<in> set (take k (c # sort_key updatedAt ?cs))" by (cases k) simp_all
  then have "conv_id c \<in> conv_id ` set (take k (sort_key updatedAt (?cs @ [c])))"
    unfolding srt by (rule imageI)
  then have "conv_id c \<notin> conv_id ` set (getAllConversations e (cleanupOldConversations e ?s1))"
    unfolding k(2) by auto
  then show ?thesis
    using ok by (simp add: getConversation_def saveConversation_ok find_by_id_None)
qed

text \<open>
  C10, as the claim states it, fails. Fifty conversations are stored, updated at times 1 to
  50. A conversation last updated at time 0 is saved (an imported one keeps its own
  \<open>updatedAt\<close>): it is the oldest of the 51, and it is the one the cleanup removes.
\<close>

theorem saveConversation_counterexample:
  "length (getAllConversations ex_env ex_fifty) = 50
   \<and> getConversation ex_env (saveConversation ex_env ex_imported ex_fifty) (conv_id ex_imported) = None"
proof
  show "length (getAllConversations ex_env ex_fifty) = 50"
    by (simp add: getAll_ok [OF storageWorks_ex_env] ex_fifty_def)
next
  have g: "getAllConversations ex_env ex_fifty = map ex_numbered [1..<51]"
    by (simp add: getAll_ok [OF storageWorks_ex_env] ex_fifty_def)
  have new: "conv_id ex_imported \<notin> conv_id ` set (getAllConversations ex_env ex_fifty)"
    unfolding g by (auto simp: ex_imported_def ex_numbered_def)
  have oldest: "\<forall>x \<in> set (getAllConversations ex_env ex_fifty). updatedAt ex_imported < updatedAt x"
    unfolding g by (auto simp: ex_imported_def ex_numbered_def)
  have full: "MAX_CONVERSATIONS \<le> length (getAllConversations ex_env ex_fifty)"
    unfolding g by (simp add: MAX_CONVERSATIONS_def)
  show "getConversation ex_env (saveConversation ex_env ex_imported ex_fifty) (conv_id ex_imported) = None"
    by (rule saveConversation_evicts_oldest [OF storageWorks_ex_env new oldest full])
qed

text \<open>
  The theorem in a browser whose storage looks full: saving a newer conversation beside
  \<open>c1\<close> removes \<open>c1\<close>, the older one, and keeps the one saved.
\<close>

theorem saveConversation_cleanup_witness:
  "storageWorks ex_fullEnv
   \<and> distinct (map conv_id (getAllConversations ex_fullEnv (storage ex_state)))
   \<and> length (getAllConversations ex_fullEnv (saveConversation ex_fullEnv ex_newer (storage ex_state)))
        \<le> MAX_CONVERSATIONS
   \<and> ex_conversation \<in> set (putConversation ex_newer (getAllConversations ex_fullEnv (storage ex_state)))
        - set (getAllConversations ex_fullEnv (saveConversation ex_fullEnv ex_newer (storage ex_state)))
   \<and> updatedAt ex_conversation \<le> updatedAt ex_newer
   \<and> getConversation ex_fullEnv (saveConversation ex_fullEnv ex_newer (storage ex_state)) ''c2''
        = Some ex_newer"
  using saveConversation_cleanup [OF storageWorks_ex_fullEnv, of ex_newer "storage ex_state"]
  by (simp add: storageWorks_def ex_fullEnv_def ex_newer_def svc_defs ex_defs)

lemma getConversation_active_update [simp]:
  "getConversation e (s\<lparr>active_item := a\<rparr>) i = getConversation e s i"
  by (simp add: getConversation_def)

lemma setActiveConversation_ok:
  "storageWorks e \<Longrightarrow> setActiveConversation e i s = s\<lparr>active_item := Some i\<rparr>"
  by (simp add: setActiveConversation_def setItem_active_def Let_def storageWorks_def)

lemma createConversation_ok:
  "storageWorks e \<Longrightarrow>
   createConversation e now new_id initialMessage s =
     (initialConversation now new_id initialMessage,
      (saveConversation e (initialConversation now new_id initialMessage) s)\<lparr>active_item := Some new_id\<rparr>)"
  by (simp add: createConversation_def Let_def setActiveConversation_ok initialConversation_def)

lemma initialConversation_sel [simp]:
  "conv_id (initialConversation now new_id m) = new_id"
  "updatedAt (initialConversation now new_id m) = now"
  "messages (initialConversation now new_id m) = []"
  by (simp_all add: initialConversation_def)

lemma getConversation_None: "i \<notin> conv_id ` set (getAllConversations e s) \<Longrightarrow> getConversation e s i = None"
  by (simp add: getConversation_def find_by_id_None)

lemma saveConversation_ids:
  assumes "storageWorks e"
  shows "conv_id ` set (getAllConversations e (saveConversation e c s))
           \<subseteq> insert (conv_id c) (conv_id ` set (getAllConversations e s))"
  using saveConversation_subset [OF assms, of c s] putConversation_set [of c "getAllConversations e s"]
  by blast

text \<open>
  C3, amended. In a browser whose storage works, with distinct stored ids, a fresh id
  for the new conversation and every stored conversation updated before now: deleting the
  active conversation creates an empty conversation \<open>New Conversation\<close> and makes it
  active, in the hook and in the storage, whether or not other conversations remain; the
  deleted conversation is stored no longer.
\<close>

theorem deleteConversation_active:
  assumes ok: "storageWorks e"
    and act: "activeConversationId st = Some conversationId"
    and fresh: "new_id \<notin> conv_id ` set (getAllConversations e (storage st))"
                "new_id \<noteq> conversationId"
    and dist: "distinct (map conv_id (getAllConversations e (storage st)))"
    and clock: "\<forall>x \<in> set (getAllConversations e (storage st)). updatedAt x < now"
  shows "activeConversationId (deleteConversation e now new_id conversationId st) = Some new_id
     \<and> getActiveConversationId e (storage (deleteConversation e now new_id conversationId st))
         = Some new_id
     \<and> getConversation e (storage (deleteConversation e now new_id conversationId st)) new_id
         = Some \<lparr>conv_id = new_id, title = ''New Conversation'', createdAt = now,
                 updatedAt = now, messages = [], modelIds = []\<rparr>
     \<and> getConversation e (storage (deleteConversation e now new_id conversationId st))
           conversationId = None"
proof -
  let ?s1 = "svc_deleteConversation e conversationId (storage st)"
  let ?new = "initialConversation now new_id None"
  let ?s2 = "saveConversation e ?new ?s1"
  have g1: "getAllConversations e ?s1 =
              filter (\<lambda>c. conv_id c \<noteq> conversationId) (getAllConversations e (storage st))"
    using ok by (rule getAll_svc_delete)
  have d1: "distinct (map conv_id (getAllConversations e ?s1))"
    using dist by (simp add: g1 distinct_map_filter)
  have n1: "\<forall>x \<in> set (getAllConversations e ?s1). conv_id x \<noteq> conv_id ?new \<longrightarrow> updatedAt x < updatedAt ?new"
    using clock by (simp add: g1)
  have kept: "getConversation e ?s2 new_id = Some ?new"
    using saveConversation_keeps_newest [OF ok d1 n1] by simp
  have "conv_id ` set (getAllConversations e ?s2)
          \<subseteq> insert new_id (conv_id ` set (getAllConversations e ?s1))"
    using saveConversation_ids [OF ok, of ?new ?s1] by simp
  then have "conversationId \<notin> conv_id ` set (getAllConversations e ?s2)"
    using fresh(2) by (auto simp: g1)
  then have gone: "getConversation e ?s2 conversationId = None" by (rule getConversation_None)
  have st': "deleteConversation e now new_id conversationId st =
          st\<lparr>storage := ?s2\<lparr>active_item := Some new_id\<rparr>,
             allConversations := getAllConversations e ?s2,
             activeConversationId := Some new_id,
             conversations := emptied (conversations st)\<rparr>"
    using act ok by (simp add: deleteConversation_def Let_def createNewConversation_def createConversation_ok)
  show ?thesis
    using kept gone ok
    by (simp add: st' getActiveConversationId_def storageWorks_def initialConversation_def)
qed

text \<open>
  C3, as the claim states it, fails. Two conversations are stored, \<open>c1\<close> (active) and
  the more recently updated \<open>c2\<close>. After \<open>c1\<close> is deleted, \<open>c2\<close> and a new conversation
  \<open>c3\<close> are stored, and the new one is active, in the hook and in the storage.
\<close>

theorem deleteConversation_counterexample:
  "activeConversationId ex_two = Some ''c1''
   \<and> map conv_id (getAllConversations ex_env (storage ex_two)) = [''c1'', ''c2'']
   \<and> map conv_id (getAllConversations ex_env
         (storage (deleteConversation ex_env 3 ''c3'' ''c1'' ex_two))) = [''c2'', ''c3'']
   \<and> activeConversationId (deleteConversation ex_env 3 ''c3'' ''c1'' ex_two) = Some ''c3''
   \<and> getActiveConversationId ex_env (storage (deleteConversation ex_env 3 ''c3'' ''c1'' ex_two))
       = Some ''c3''"
  by (simp add: deleteConversation_def createNewConversation_def emptied_def ex_two_def ex_c2_def
        svc_defs ex_defs Let_def)

text \<open>The theorem at the state of the counterexample.\<close>

theorem deleteConversation_active_witness:
  "storageWorks ex_env
   \<and> activeConversationId ex_two = Some ''c1''
   \<and> ''c3'' \<notin> conv_id ` set (getAllConversations ex_env (storage ex_two))
   \<and> distinct (map conv_id (getAllConversations ex_env (storage ex_two)))
   \<and> map updatedAt (getAllConversations ex_env (storage ex_two)) = [1, 2]
   \<and> activeConversationId (deleteConversation ex_env 3 ''c3'' ''c1'' ex_two) = Some ''c3''
   \<and> getConversation ex_env (storage (deleteConversation ex_env 3 ''c3'' ''c1'' ex_two)) ''c1''
       = None"
proof -
  have h1: "storageWorks ex_env" by (rule storageWorks_ex_env)
  have g: "getAllConversations ex_env (storage ex_two) = [ex_conversation, ex_c2]"
    by (simp add: getAll_ok [OF h1] ex_two_def)
  have h2: "activeConversationId ex_two = Some ''c1''" by (simp add: ex_two_def ex_state_def)
  have h3: "''c3'' \<notin> conv_id ` set (getAllConversations ex_env (storage ex_two))"
    by (simp add: g ex_conversation_def ex_c2_def)
  have h4: "''c3'' \<noteq> ''c1''" by simp
  have h5: "distinct (map conv_id (getAllConversations ex_env (storage ex_two)))"
    by (simp add: g ex_conversation_def ex_c2_def)
  have h6: "\<forall>x \<in> set (getAllConversations ex_env (storage ex_two)). updatedAt x < 3"
    by (simp add: g ex_conversation_def ex_c2_def)
  have h7: "map updatedAt (getAllConversations ex_env (storage ex_two)) = [1, 2]"
    by (simp add: g ex_conversation_def ex_c2_def)
  from deleteConversation_active [OF h1 h2 h3 h4 h5 h6] h1 h2 h3 h5 h7
  show ?thesis by blast
qed

subsection \<open>Submitting a prompt\<close>















text \<open>
  How such a state comes about: \<open>c1\<close> is active, the storage looks full, and a reply for
  the more recently updated \<open>c2\<close> is stored; the cleanup that follows removes \<open>c1\<close>, and
  the hook is not told.
\<close>

lemma active_conversation_can_be_evicted:
  "activeConversationId ex_two = Some ''c1''
   \<and> map conv_id (getAllConversations ex_fullEnv (storage ex_two)) = [''c1'', ''c2'']
   \<and> map conv_id (getAllConversations ex_fullEnv
         (addMessageToConversation ex_fullEnv 3 ''c2'' ex_reply (storage ex_two))) = [''c2'']"
  by (simp add: svc_defs ex_defs ex_reply_def Let_def)

text \<open>
  When no conversation is active, the \<open>sendPromptToModels\<close> of the same render still reads
  no active conversation: it reports the error and sends nothing.
\<close>

lemma submit_without_active_conversation:
  assumes "activeConversationId st = None" and "filter isEnabled (models st) \<noteq> []"
  shows "snd (sendPromptToEnabledModels e now new_id server prompt schedule st) = []
       \<and> app_error (fst (sendPromptToEnabledModels e now new_id server prompt schedule st))
           = Some ''No active conversation''"
  using assms by (simp add: sendPromptToEnabledModels_def sendPromptToModels_def closure_of_def Let_def)


end
